theory Spec2Isabelle
  imports Complex_Main
begin

section \<open>Data model of \<open>upkie/envs/upkie_servos.py\<close>\<close>

text \<open>
  Python dictionaries are partial maps from their (string) keys. Scalars are Python
  floats; they are modelled as real numbers, so NaN, infinities and rounding are outside
  the model.
\<close>

type_synonym 'v dict = "string \<rightharpoonup> 'v"

text \<open>The class constants \<open>ACTION_KEYS\<close> and \<open>JOINT_NAMES\<close>, in the order of the tuples.\<close>

definition ACTION_KEYS :: "string list" where
  "ACTION_KEYS =
     [''position'', ''velocity'', ''feedforward_torque'', ''kp_scale'', ''kd_scale'',
      ''maximum_torque'']"

definition JOINT_NAMES :: "string list" where
  "JOINT_NAMES =
     [''left_hip'', ''left_knee'', ''left_wheel'', ''right_hip'', ''right_knee'',
      ''right_wheel'']"

text \<open>
  The exceptions of the module. \<open>ModelError\<close> carries the two sequences that the
  source interpolates into its message (\<open>expected {self.JOINT_NAMES} got {joint_names}\<close>);
  \<open>ActionError\<close> carries its message; \<open>KeyError\<close> is Python's own exception for a
  dictionary lookup that is not inside the \<open>try\<close> block, with the missing key;
  \<open>TypeError\<close> is Python's exception for a value of the wrong kind (a number where a
  dictionary is expected, or the converse).
\<close>

datatype error =
    ModelError "string list" "string list"
  | ActionError string
  | KeyError string
  | TypeError

text \<open>
  The kinematic model is an object of the Pinocchio library. The constructor reads
  \<open>model.names\<close>, \<open>model.getJointId(name)\<close>, \<open>model.joints[i]\<close> and the fields
  \<open>idx_q\<close> and \<open>idx_v\<close> of a joint. The library is not part of the repository: its
  lookups are taken as total functions of the model.
\<close>

record joint_model =
  idx_q :: nat
  idx_v :: nat

record pin_model =
  names :: "string list"
  getJointId :: "string \<Rightarrow> nat"
  joints :: "nat \<Rightarrow> joint_model"

text \<open>
  The vectors returned by \<open>box_position_limits(model)\<close>, \<open>box_velocity_limits(model)\<close>
  and \<open>box_torque_limits(model)\<close> of \<open>upkie.utils.pinocchio\<close>. These helpers are not
  among the sources, so their results are parameters of the constructor.
\<close>

record box_limits =
  q_min :: "nat \<Rightarrow> real"
  q_max :: "nat \<Rightarrow> real"
  v_max :: "nat \<Rightarrow> real"
  tau_max :: "nat \<Rightarrow> real"

text \<open>
  \<open>spaces.Box(low=..., high=..., shape=(1,), dtype=np.float32)\<close>: the source builds every
  box with the same shape and dtype, so a box is its pair of bounds.
  \<open>spaces.Dict\<close> is a dictionary of spaces.
\<close>

record box =
  low :: real
  high :: real

type_synonym joint_space = "box dict"

text \<open>The attributes of an \<open>UpkieServos\<close> object that the constructor builds.\<close>

record upkie_servos =
  action_space :: "joint_space dict"
  observation_space :: "joint_space dict"
  default_action :: "real dict dict"
  max_action :: "real dict dict"
  min_action :: "real dict dict"

section \<open>The constructor\<close>

text \<open>The four dictionary literals of the loop body, for one joint.\<close>

definition default_entry :: "box_limits \<Rightarrow> joint_model \<Rightarrow> real dict" where
  "default_entry l joint =
     [''feedforward_torque'' \<mapsto> 0,
      ''kp_scale'' \<mapsto> 1,
      ''kd_scale'' \<mapsto> 1,
      ''maximum_torque'' \<mapsto> tau_max l (idx_v joint)]"

definition max_entry :: "box_limits \<Rightarrow> joint_model \<Rightarrow> real dict" where
  "max_entry l joint =
     [''position'' \<mapsto> q_max l (idx_q joint),
      ''velocity'' \<mapsto> v_max l (idx_v joint),
      ''feedforward_torque'' \<mapsto> tau_max l (idx_v joint),
      ''kp_scale'' \<mapsto> 1,
      ''kd_scale'' \<mapsto> 1,
      ''maximum_torque'' \<mapsto> tau_max l (idx_v joint)]"

definition min_entry :: "box_limits \<Rightarrow> joint_model \<Rightarrow> real dict" where
  "min_entry l joint =
     [''position'' \<mapsto> q_min l (idx_q joint),
      ''velocity'' \<mapsto> - v_max l (idx_v joint),
      ''feedforward_torque'' \<mapsto> - tau_max l (idx_v joint),
      ''kp_scale'' \<mapsto> 0,
      ''kd_scale'' \<mapsto> 0,
      ''maximum_torque'' \<mapsto> 0]"

definition space_entry :: "box_limits \<Rightarrow> joint_model \<Rightarrow> joint_space" where
  "space_entry l joint =
     [''position'' \<mapsto> \<lparr>low = q_min l (idx_q joint), high = q_max l (idx_q joint)\<rparr>,
      ''velocity'' \<mapsto> \<lparr>low = - v_max l (idx_v joint), high = v_max l (idx_v joint)\<rparr>,
      ''feedforward_torque'' \<mapsto>
         \<lparr>low = - tau_max l (idx_v joint), high = tau_max l (idx_v joint)\<rparr>,
      ''kp_scale'' \<mapsto> \<lparr>low = 0, high = 1\<rparr>,
      ''kd_scale'' \<mapsto> \<lparr>low = 0, high = 1\<rparr>,
      ''maximum_torque'' \<mapsto> \<lparr>low = 0, high = tau_max l (idx_v joint)\<rparr>]"

text \<open>
  The inner loop \<open>for space in (action_space, observation_space): space[name] = ...\<close>.
  The state is the pair of the two dictionaries; the flag tells which of the two the
  loop variable \<open>space\<close> is bound to.
\<close>

fun space_loop ::
  "box_limits \<Rightarrow> joint_model \<Rightarrow> string \<Rightarrow> bool list \<Rightarrow>
   joint_space dict \<times> joint_space dict \<Rightarrow> joint_space dict \<times> joint_space dict" where
  "space_loop l joint name [] (act, obs) = (act, obs)"
| "space_loop l joint name (is_action # rest) (act, obs) =
     (if is_action
      then space_loop l joint name rest (act(name \<mapsto> space_entry l joint), obs)
      else space_loop l joint name rest (act, obs(name \<mapsto> space_entry l joint)))"

text \<open>One iteration of \<open>for name in joint_names\<close>, on the five dictionaries.\<close>

definition init_step :: "pin_model \<Rightarrow> box_limits \<Rightarrow> string \<Rightarrow> upkie_servos \<Rightarrow> upkie_servos" where
  "init_step model l name self =
     (let joint = joints model (getJointId model name);
          default_action' = (default_action self)(name \<mapsto> default_entry l joint);
          max_action' = (max_action self)(name \<mapsto> max_entry l joint);
          min_action' = (min_action self)(name \<mapsto> min_entry l joint);
          (act, obs) = space_loop l joint name [True, False]
                         (action_space self, observation_space self)
      in \<lparr>action_space = act, observation_space = obs,
          default_action = default_action', max_action = max_action',
          min_action = min_action'\<rparr>)"

fun init_loop :: "pin_model \<Rightarrow> box_limits \<Rightarrow> string list \<Rightarrow> upkie_servos \<Rightarrow> upkie_servos" where
  "init_loop model l [] self = self"
| "init_loop model l (name # rest) self = init_loop model l rest (init_step model l name self)"

definition empty_tables :: upkie_servos where
  "empty_tables =
     \<lparr>action_space = Map.empty, observation_space = Map.empty,
      default_action = Map.empty, max_action = Map.empty, min_action = Map.empty\<rparr>"

text \<open>
  \<open>UpkieServos.__init__\<close>, from the loaded model on. \<open>list(model.names)[1:]\<close> drops the
  first name (an empty list stays empty).
\<close>

definition UpkieServos_init :: "pin_model \<Rightarrow> box_limits \<Rightarrow> error + upkie_servos" where
  "UpkieServos_init model l =
     (let joint_names = tl (names model)
      in if set joint_names \<noteq> set JOINT_NAMES
         then Inl (ModelError JOINT_NAMES joint_names)
         else Inr (init_loop model l joint_names empty_tables))"

section \<open>Clamping\<close>

text \<open>
  A clamp warning, as logged: the label of the clamped quantity, the value that was
  supplied and the value that replaced it.
\<close>

record warning =
  label :: string
  original :: real
  clamped :: real

text \<open>
  Modelled from the spec: \<open>clamp_and_warn\<close> of \<open>upkie.utils.clamp\<close> is not among the
  sources. The specification says of it: the value is clamped into \<open>[lower, upper]\<close>;
  a value above \<open>upper\<close> gives \<open>upper\<close> and a value below \<open>lower\<close> gives \<open>lower\<close>, in both
  cases with a warning that identifies the label, the original value and the clamped
  value; a value inside the bounds is returned as it is, with no warning.
  The function returns the value together with the warnings it logged.
\<close>

definition clamp_and_warn :: "real \<Rightarrow> real \<Rightarrow> real \<Rightarrow> string \<Rightarrow> real \<times> warning list" where
  "clamp_and_warn value lower upper lbl =
     (if value > upper
      then (upper, [\<lparr>label = lbl, original = value, clamped = upper\<rparr>])
      else if value < lower
      then (lower, [\<lparr>label = lbl, original = value, clamped = lower\<rparr>])
      else (value, []))"

section \<open>\<open>get_spine_action\<close>\<close>

text \<open>The message \<open>f'Missing key "{key}" required for joint "{joint}"'\<close>.\<close>

definition missing_key_message :: "string \<Rightarrow> string \<Rightarrow> string" where
  "missing_key_message key joint =
     ''Missing key '' @ [CHR 0x22] @ key @ [CHR 0x22] @ '' required for joint '' @
     [CHR 0x22] @ joint @ [CHR 0x22]"

text \<open>The label \<open>f"{joint}: {key}"\<close>.\<close>

definition clamp_label :: "string \<Rightarrow> string \<Rightarrow> string" where
  "clamp_label joint key = joint @ '': '' @ key"

text \<open>
  The \<open>try\<close> block: the conditional expression
  \<open>env_action[joint][key] if key in env_action[joint] else self.__default_action[joint][key]\<close>.
  The condition is evaluated first, so a missing \<open>env_action[joint]\<close> is a \<open>KeyError\<close>;
  so is a missing default. Every \<open>KeyError\<close> of the block becomes an \<open>ActionError\<close>.
\<close>

definition resolve_action ::
  "upkie_servos \<Rightarrow> real dict dict \<Rightarrow> string \<Rightarrow> string \<Rightarrow> error + real" where
  "resolve_action self env_action joint key =
     (case env_action joint of
        None \<Rightarrow> Inl (ActionError (missing_key_message key joint))
      | Some entry \<Rightarrow>
          (case entry key of
             Some v \<Rightarrow> Inr v
           | None \<Rightarrow>
               (case default_action self joint of
                  None \<Rightarrow> Inl (ActionError (missing_key_message key joint))
                | Some dflt \<Rightarrow>
                    (case dflt key of
                       None \<Rightarrow> Inl (ActionError (missing_key_message key joint))
                     | Some v \<Rightarrow> Inr v))))"

text \<open>
  A lookup \<open>table[joint][key]\<close> outside the \<open>try\<close> block: a missing key is Python's
  \<open>KeyError\<close>, which the method does not catch.
\<close>

definition table_lookup :: "real dict dict \<Rightarrow> string \<Rightarrow> string \<Rightarrow> error + real" where
  "table_lookup table joint key =
     (case table joint of
        None \<Rightarrow> Inl (KeyError joint)
      | Some row \<Rightarrow> (case row key of None \<Rightarrow> Inl (KeyError key) | Some v \<Rightarrow> Inr v))"

text \<open>
  The loop \<open>for key in self.ACTION_KEYS\<close>. The state is the dictionary \<open>servo_action\<close>
  and the log of the warnings emitted so far; an exception leaves the loop with the log
  as it is at that moment. The arguments of \<open>clamp_and_warn\<close> are evaluated from left to
  right.
\<close>

fun key_loop ::
  "upkie_servos \<Rightarrow> real dict dict \<Rightarrow> string \<Rightarrow> string list \<Rightarrow> real dict \<Rightarrow> warning list \<Rightarrow>
   (error + real dict) \<times> warning list" where
  "key_loop self env_action joint [] servo_action logged = (Inr servo_action, logged)"
| "key_loop self env_action joint (key # rest) servo_action logged =
     (case resolve_action self env_action joint key of
        Inl e \<Rightarrow> (Inl e, logged)
      | Inr action \<Rightarrow>
          (case table_lookup (min_action self) joint key of
             Inl e \<Rightarrow> (Inl e, logged)
           | Inr lower \<Rightarrow>
               (case table_lookup (max_action self) joint key of
                  Inl e \<Rightarrow> (Inl e, logged)
                | Inr upper \<Rightarrow>
                    (case clamp_and_warn action lower upper (clamp_label joint key) of
                       (v, ws) \<Rightarrow>
                         key_loop self env_action joint rest
                           (servo_action(key \<mapsto> v)) (logged @ ws)))))"

text \<open>
  The loop \<open>for joint in self.JOINT_NAMES\<close>. The state is the dictionary
  \<open>spine_action["servo"]\<close> and the log.
\<close>

fun joint_loop ::
  "upkie_servos \<Rightarrow> real dict dict \<Rightarrow> string list \<Rightarrow> real dict dict \<Rightarrow> warning list \<Rightarrow>
   (error + real dict dict) \<times> warning list" where
  "joint_loop self env_action [] servo logged = (Inr servo, logged)"
| "joint_loop self env_action (joint # rest) servo logged =
     (case key_loop self env_action joint ACTION_KEYS Map.empty logged of
        (Inl e, logged') \<Rightarrow> (Inl e, logged')
      | (Inr servo_action, logged') \<Rightarrow>
          joint_loop self env_action rest (servo(joint \<mapsto> servo_action)) logged')"

text \<open>
  \<open>UpkieServos.get_spine_action\<close>: the command batch \<open>{"servo": {...}}\<close> or the exception
  raised, and the warnings logged during the call.
\<close>

definition get_spine_action ::
  "upkie_servos \<Rightarrow> real dict dict \<Rightarrow> (error + real dict dict dict) \<times> warning list" where
  "get_spine_action self env_action =
     (case joint_loop self env_action JOINT_NAMES Map.empty [] of
        (Inl e, logged) \<Rightarrow> (Inl e, logged)
      | (Inr servo, logged) \<Rightarrow> (Inr [''servo'' \<mapsto> servo], logged))"

section \<open>Notions used in the statements\<close>

text \<open>The joint object \<open>model.joints[model.getJointId(name)]\<close> of a joint name.\<close>

definition joint_of :: "pin_model \<Rightarrow> string \<Rightarrow> joint_model" where
  "joint_of model name = joints model (getJointId model name)"

text \<open>
  The limits of the six joints are well formed: the lower position limit is not above
  the upper one, and the velocity and torque magnitudes are not negative.
\<close>

definition valid_limits :: "pin_model \<Rightarrow> box_limits \<Rightarrow> bool" where
  "valid_limits model l =
     (\<forall>name \<in> set JOINT_NAMES.
        q_min l (idx_q (joint_of model name)) \<le> q_max l (idx_q (joint_of model name)) \<and>
        0 \<le> v_max l (idx_v (joint_of model name)) \<and>
        0 \<le> tau_max l (idx_v (joint_of model name)))"

text \<open>The action has an entry for the joint, with a position and a velocity.\<close>

definition supplies_required :: "real dict dict \<Rightarrow> string \<Rightarrow> bool" where
  "supplies_required env_action joint =
     (case env_action joint of
        None \<Rightarrow> False
      | Some entry \<Rightarrow> entry ''position'' \<noteq> None \<and> entry ''velocity'' \<noteq> None)"

text \<open>
  The body of the loop over the keys, as a function of the joint and the key: the
  exception raised, or the clamped value with the warnings of the clamp.
\<close>

definition clamp_field ::
  "upkie_servos \<Rightarrow> real dict dict \<Rightarrow> string \<Rightarrow> string \<Rightarrow> error + real \<times> warning list" where
  "clamp_field self env_action joint key =
     (case resolve_action self env_action joint key of
        Inl e \<Rightarrow> Inl e
      | Inr action \<Rightarrow>
          (case table_lookup (min_action self) joint key of
             Inl e \<Rightarrow> Inl e
           | Inr lower \<Rightarrow>
               (case table_lookup (max_action self) joint key of
                  Inl e \<Rightarrow> Inl e
                | Inr upper \<Rightarrow> Inr (clamp_and_warn action lower upper (clamp_label joint key)))))"

definition field_ok :: "upkie_servos \<Rightarrow> real dict dict \<Rightarrow> string \<Rightarrow> string \<Rightarrow> bool" where
  "field_ok self env_action joint key =
     (case clamp_field self env_action joint key of Inl e \<Rightarrow> False | Inr r \<Rightarrow> True)"

definition field_value :: "upkie_servos \<Rightarrow> real dict dict \<Rightarrow> string \<Rightarrow> string \<Rightarrow> real option" where
  "field_value self env_action joint key =
     (case clamp_field self env_action joint key of Inl e \<Rightarrow> None | Inr (v, ws) \<Rightarrow> Some v)"

definition field_warnings :: "upkie_servos \<Rightarrow> real dict dict \<Rightarrow> string \<Rightarrow> string \<Rightarrow> warning list" where
  "field_warnings self env_action joint key =
     (case clamp_field self env_action joint key of Inl e \<Rightarrow> [] | Inr (v, ws) \<Rightarrow> ws)"

definition joint_ok :: "upkie_servos \<Rightarrow> real dict dict \<Rightarrow> string \<Rightarrow> bool" where
  "joint_ok self env_action joint = (\<forall>key \<in> set ACTION_KEYS. field_ok self env_action joint key)"

text \<open>What a successful pass over the six keys writes and logs for a joint.\<close>

definition servo_row :: "upkie_servos \<Rightarrow> real dict dict \<Rightarrow> string \<Rightarrow> real dict" where
  "servo_row self env_action joint =
     (\<lambda>key. if key \<in> set ACTION_KEYS then field_value self env_action joint key else None)"

definition joint_warnings :: "upkie_servos \<Rightarrow> real dict dict \<Rightarrow> string \<Rightarrow> warning list" where
  "joint_warnings self env_action joint =
     concat (map (field_warnings self env_action joint) ACTION_KEYS)"

text \<open>
  The key that the error message names for a joint without a position or a velocity:
  the first of the two, in the order of \<open>ACTION_KEYS\<close>, that the action lacks.
\<close>

definition first_missing_key :: "real dict dict \<Rightarrow> string \<Rightarrow> string" where
  "first_missing_key env_action joint =
     (case env_action joint of
        None \<Rightarrow> ''position''
      | Some entry \<Rightarrow> if entry ''position'' = None then ''position'' else ''velocity'')"

section \<open>An example robot\<close>

text \<open>
  A kinematic model with the six joints after the \<open>universe\<close> joint, in an order that
  differs from \<open>JOINT_NAMES\<close>; \<open>getJointId\<close> is the position of the name in
  \<open>names\<close> (the number of names for an unknown name), and joint \<open>i\<close> has the indices
  \<open>i - 1\<close>. The left hip is limited to \<open>[-1, 1]\<close>.
\<close>

definition upkie_model :: pin_model where
  "upkie_model =
     \<lparr>names = [''universe'', ''right_hip'', ''right_knee'', ''right_wheel'', ''left_hip'',
               ''left_knee'', ''left_wheel''],
      getJointId = (\<lambda>name. length (takeWhile (\<lambda>n. n \<noteq> name)
                 [''universe'', ''right_hip'', ''right_knee'', ''right_wheel'', ''left_hip'',
                  ''left_knee'', ''left_wheel''])),
      joints = (\<lambda>i. \<lparr>idx_q = i - 1, idx_v = i - 1\<rparr>)\<rparr>"

definition upkie_limits :: box_limits where
  "upkie_limits =
     \<lparr>q_min = (\<lambda>i. if i = 3 then - 1 else - 2),
      q_max = (\<lambda>i. if i = 3 then 1 else 2),
      v_max = (\<lambda>i. 10),
      tau_max = (\<lambda>i. 16)\<rparr>"

definition upkie_env :: upkie_servos where
  "upkie_env = init_loop upkie_model upkie_limits (tl (names upkie_model)) empty_tables"

text \<open>A model that reports two joints only.\<close>

definition renamed_model :: pin_model where
  "renamed_model = upkie_model\<lparr>names := [''universe'', ''left_hip'', ''left_knee'']\<rparr>"

text \<open>
  Actions for the example robot. The first one is the scenario of the specification:
  the left hip is asked for the position \<open>1.5\<close>; it also asks the right wheel for a
  torque below its bound, and leaves most optional fields out. The second one supplies
  every field of every joint inside its bounds.
\<close>

definition scenario_action :: "real dict dict" where
  "scenario_action =
     [''left_hip'' \<mapsto> [''position'' \<mapsto> 3 / 2, ''velocity'' \<mapsto> 0],
      ''left_knee'' \<mapsto> [''position'' \<mapsto> 0, ''velocity'' \<mapsto> 0],
      ''left_wheel'' \<mapsto> [''position'' \<mapsto> 0, ''velocity'' \<mapsto> 5, ''kd_scale'' \<mapsto> 0],
      ''right_hip'' \<mapsto> [''position'' \<mapsto> 0, ''velocity'' \<mapsto> 0],
      ''right_knee'' \<mapsto> [''position'' \<mapsto> 0, ''velocity'' \<mapsto> 0],
      ''right_wheel'' \<mapsto>
         [''position'' \<mapsto> 0, ''velocity'' \<mapsto> 0, ''feedforward_torque'' \<mapsto> - 20]]"


text \<open>
  Actions with missing values: the right wheel without velocity; no entry for the right
  knee; the left hip and the right wheel both without velocity, the left hip with a
  position out of range; the left hip without velocity and no entry for the right wheel.
\<close>

definition no_velocity_action :: "real dict dict" where
  "no_velocity_action =
     (\<lambda>joint. if joint = ''right_wheel'' then Some [''position'' \<mapsto> 0]
        else if joint \<in> set JOINT_NAMES then Some [''position'' \<mapsto> 0, ''velocity'' \<mapsto> 0]
        else None)"

definition no_right_knee_action :: "real dict dict" where
  "no_right_knee_action =
     (\<lambda>joint. if joint = ''right_knee'' then None
        else if joint \<in> set JOINT_NAMES then Some [''position'' \<mapsto> 0, ''velocity'' \<mapsto> 0]
        else None)"

definition two_missing_action :: "real dict dict" where
  "two_missing_action =
     (\<lambda>joint. if joint = ''left_hip'' then Some [''position'' \<mapsto> 5]
        else if joint = ''right_wheel'' then Some [''position'' \<mapsto> 0]
        else if joint \<in> set JOINT_NAMES then Some [''position'' \<mapsto> 0, ''velocity'' \<mapsto> 0]
        else None)"

definition absent_joint_action :: "real dict dict" where
  "absent_joint_action =
     (\<lambda>joint. if joint = ''left_hip'' then Some [''position'' \<mapsto> 0]
        else if joint = ''right_wheel'' then None
        else if joint \<in> set JOINT_NAMES then Some [''position'' \<mapsto> 0, ''velocity'' \<mapsto> 0]
        else None)"

section \<open>\<open>get_spine_action\<close> on a store of dictionaries\<close>

text \<open>
  To state what the method leaves unchanged, the dictionaries are placed in a store:
  every dictionary object has an address, and a dictionary of dictionaries holds the
  addresses of its values. A cell is a dictionary of numbers or a dictionary of
  references. A new dictionary takes the next free address.
\<close>

datatype cell = Row "real dict" | Table "nat dict"

record heap =
  cells :: "nat \<rightharpoonup> cell"
  fresh :: nat

definition new_cell :: "cell \<Rightarrow> heap \<Rightarrow> nat \<times> heap" where
  "new_cell c h = (fresh h, h\<lparr>cells := (cells h)(fresh h \<mapsto> c), fresh := Suc (fresh h)\<rparr>)"

text \<open>
  Reading a cell as a dictionary of references or of numbers; subscripting a value of
  the other kind is a \<open>TypeError\<close>.
\<close>

definition get_table :: "heap \<Rightarrow> nat \<Rightarrow> error + nat dict" where
  "get_table h t = (case cells h t of Some (Table d) \<Rightarrow> Inr d | _ \<Rightarrow> Inl TypeError)"

definition get_row :: "heap \<Rightarrow> nat \<Rightarrow> error + real dict" where
  "get_row h r = (case cells h r of Some (Row d) \<Rightarrow> Inr d | _ \<Rightarrow> Inl TypeError)"

text \<open>The assignments \<open>d[key] = v\<close>: the cell at the address is replaced.\<close>

definition set_row_item :: "heap \<Rightarrow> nat \<Rightarrow> string \<Rightarrow> real \<Rightarrow> error + heap" where
  "set_row_item h r key v =
     (case cells h r of
        Some (Row d) \<Rightarrow> Inr (h\<lparr>cells := (cells h)(r \<mapsto> Row (d(key \<mapsto> v)))\<rparr>)
      | _ \<Rightarrow> Inl TypeError)"

definition set_table_item :: "heap \<Rightarrow> nat \<Rightarrow> string \<Rightarrow> nat \<Rightarrow> error + heap" where
  "set_table_item h t key r =
     (case cells h t of
        Some (Table d) \<Rightarrow> Inr (h\<lparr>cells := (cells h)(t \<mapsto> Table (d(key \<mapsto> r)))\<rparr>)
      | _ \<Rightarrow> Inl TypeError)"

text \<open>
  The addresses of \<open>self.__default_action\<close>, \<open>self.__max_action\<close> and
  \<open>self.__min_action\<close>.
\<close>

record self_refs =
  default_ref :: nat
  max_ref :: nat
  min_ref :: nat

text \<open>
  The \<open>try\<close> block and the two table lookups of the loop body, reading the store. A
  \<open>TypeError\<close> is not caught by \<open>except KeyError\<close>.
\<close>

definition h_resolve_action ::
  "heap \<Rightarrow> self_refs \<Rightarrow> nat \<Rightarrow> string \<Rightarrow> string \<Rightarrow> error + real" where
  "h_resolve_action h self env_action joint key =
     (case get_table h env_action of
        Inl e \<Rightarrow> Inl e
      | Inr action_dict \<Rightarrow>
          (case action_dict joint of
             None \<Rightarrow> Inl (ActionError (missing_key_message key joint))
           | Some entry_ref \<Rightarrow>
               (case get_row h entry_ref of
                  Inl e \<Rightarrow> Inl e
                | Inr entry \<Rightarrow>
                    (case entry key of
                       Some v \<Rightarrow> Inr v
                     | None \<Rightarrow>
                         (case get_table h (default_ref self) of
                            Inl e \<Rightarrow> Inl e
                          | Inr default_dict \<Rightarrow>
                              (case default_dict joint of
                                 None \<Rightarrow> Inl (ActionError (missing_key_message key joint))
                               | Some dflt_ref \<Rightarrow>
                                   (case get_row h dflt_ref of
                                      Inl e \<Rightarrow> Inl e
                                    | Inr dflt \<Rightarrow>
                                        (case dflt key of
                                           None \<Rightarrow>
                                             Inl (ActionError (missing_key_message key joint))
                                         | Some v \<Rightarrow> Inr v))))))))"

definition h_table_lookup :: "heap \<Rightarrow> nat \<Rightarrow> string \<Rightarrow> string \<Rightarrow> error + real" where
  "h_table_lookup h table joint key =
     (case get_table h table of
        Inl e \<Rightarrow> Inl e
      | Inr table_dict \<Rightarrow>
          (case table_dict joint of
             None \<Rightarrow> Inl (KeyError joint)
           | Some row_ref \<Rightarrow>
               (case get_row h row_ref of
                  Inl e \<Rightarrow> Inl e
                | Inr row \<Rightarrow> (case row key of None \<Rightarrow> Inl (KeyError key) | Some v \<Rightarrow> Inr v))))"

text \<open>
  The loop over the keys writes \<open>servo_action[key]\<close> at the address of
  \<open>servo_action\<close>.
\<close>

fun h_key_loop ::
  "self_refs \<Rightarrow> nat \<Rightarrow> string \<Rightarrow> string list \<Rightarrow> nat \<Rightarrow> heap \<Rightarrow> warning list \<Rightarrow>
   (error + unit) \<times> heap \<times> warning list" where
  "h_key_loop self env_action joint [] servo_action h logged = (Inr (), h, logged)"
| "h_key_loop self env_action joint (key # rest) servo_action h logged =
     (case h_resolve_action h self env_action joint key of
        Inl e \<Rightarrow> (Inl e, h, logged)
      | Inr action \<Rightarrow>
          (case h_table_lookup h (min_ref self) joint key of
             Inl e \<Rightarrow> (Inl e, h, logged)
           | Inr lower \<Rightarrow>
               (case h_table_lookup h (max_ref self) joint key of
                  Inl e \<Rightarrow> (Inl e, h, logged)
                | Inr upper \<Rightarrow>
                    (case clamp_and_warn action lower upper (clamp_label joint key) of
                       (v, ws) \<Rightarrow>
                         (case set_row_item h servo_action key v of
                            Inl e \<Rightarrow> (Inl e, h, logged @ ws)
                          | Inr h' \<Rightarrow>
                              h_key_loop self env_action joint rest servo_action h'
                                (logged @ ws))))))"

text \<open>
  The loop over the joints: \<open>servo_action = {}\<close> is a new cell, and
  \<open>spine_action["servo"][joint] = servo_action\<close> stores its address in the dictionary
  found under \<open>"servo"\<close>.
\<close>

fun h_joint_loop ::
  "self_refs \<Rightarrow> nat \<Rightarrow> string list \<Rightarrow> nat \<Rightarrow> heap \<Rightarrow> warning list \<Rightarrow>
   (error + unit) \<times> heap \<times> warning list" where
  "h_joint_loop self env_action [] spine_action h logged = (Inr (), h, logged)"
| "h_joint_loop self env_action (joint # rest) spine_action h logged =
     (case new_cell (Row Map.empty) h of
        (servo_action, h1) \<Rightarrow>
          (case h_key_loop self env_action joint ACTION_KEYS servo_action h1 logged of
             (Inl e, h2, logged') \<Rightarrow> (Inl e, h2, logged')
           | (Inr u, h2, logged') \<Rightarrow>
               (case get_table h2 spine_action of
                  Inl e \<Rightarrow> (Inl e, h2, logged')
                | Inr spine_dict \<Rightarrow>
                    (case spine_dict ''servo'' of
                       None \<Rightarrow> (Inl (KeyError ''servo''), h2, logged')
                     | Some servo \<Rightarrow>
                         (case set_table_item h2 servo joint servo_action of
                            Inl e \<Rightarrow> (Inl e, h2, logged')
                          | Inr h3 \<Rightarrow>
                              h_joint_loop self env_action rest spine_action h3 logged')))))"

text \<open>
  The method: \<open>spine_action = {"servo": {}}\<close> creates two cells; the result is the
  address of \<open>spine_action\<close>, the store after the call and the warnings.
\<close>

definition h_get_spine_action ::
  "self_refs \<Rightarrow> nat \<Rightarrow> heap \<Rightarrow> (error + nat) \<times> heap \<times> warning list" where
  "h_get_spine_action self env_action h =
     (case new_cell (Table Map.empty) h of
        (servo, h1) \<Rightarrow>
          (case new_cell (Table [''servo'' \<mapsto> servo]) h1 of
             (spine_action, h2) \<Rightarrow>
               (case h_joint_loop self env_action JOINT_NAMES spine_action h2 [] of
                  (Inl e, h3, logged) \<Rightarrow> (Inl e, h3, logged)
                | (Inr u, h3, logged) \<Rightarrow> (Inr spine_action, h3, logged))))"

text \<open>
  What the store holds at an address, as the nested dictionaries of the sections above:
  a dictionary of rows, the rows of the six joints only, the tables of an object, and a
  command batch.
\<close>

definition read_rows :: "heap \<Rightarrow> nat \<Rightarrow> real dict dict" where
  "read_rows h t =
     (case cells h t of
        Some (Table d) \<Rightarrow>
          (\<lambda>joint. case d joint of
                      None \<Rightarrow> None
                    | Some r \<Rightarrow> (case cells h r of Some (Row row) \<Rightarrow> Some row | _ \<Rightarrow> None))
      | _ \<Rightarrow> Map.empty)"

definition read_joints :: "heap \<Rightarrow> nat \<Rightarrow> real dict dict" where
  "read_joints h t = (\<lambda>joint. if joint \<in> set JOINT_NAMES then read_rows h t joint else None)"

definition self_of :: "heap \<Rightarrow> self_refs \<Rightarrow> upkie_servos" where
  "self_of h self =
     \<lparr>action_space = Map.empty, observation_space = Map.empty,
      default_action = read_joints h (default_ref self),
      max_action = read_joints h (max_ref self),
      min_action = read_joints h (min_ref self)\<rparr>"

definition read_batch :: "heap \<Rightarrow> nat \<Rightarrow> real dict dict dict" where
  "read_batch h b =
     (case cells h b of
        Some (Table d) \<Rightarrow>
          (\<lambda>k. case d k of None \<Rightarrow> None | Some t \<Rightarrow> Some (read_rows h t))
      | _ \<Rightarrow> Map.empty)"

text \<open>
  The argument and the tables are well formed below \<open>n\<close>: the address is allocated and
  holds a dictionary of references, and what it holds for the six joints are allocated
  dictionaries of numbers.
\<close>

definition is_row :: "heap \<Rightarrow> nat \<Rightarrow> bool" where
  "is_row h r = (case cells h r of Some (Row row) \<Rightarrow> True | _ \<Rightarrow> False)"

definition refs_below :: "nat \<Rightarrow> heap \<Rightarrow> nat dict \<Rightarrow> bool" where
  "refs_below n h d =
     (\<forall>joint \<in> set JOINT_NAMES. case d joint of None \<Rightarrow> True | Some r \<Rightarrow> r < n \<and> is_row h r)"

definition table_below :: "nat \<Rightarrow> heap \<Rightarrow> nat \<Rightarrow> bool" where
  "table_below n h t =
     (t < n \<and> (case cells h t of Some (Table d) \<Rightarrow> refs_below n h d | _ \<Rightarrow> False))"

definition inputs_ok :: "heap \<Rightarrow> self_refs \<Rightarrow> nat \<Rightarrow> bool" where
  "inputs_ok h self env_action =
     (table_below (fresh h) h env_action \<and> table_below (fresh h) h (default_ref self) \<and>
      table_below (fresh h) h (max_ref self) \<and> table_below (fresh h) h (min_ref self))"

text \<open>
  The two cells of \<open>spine_action\<close> during the loop over the joints: allocated by the
  call (not below \<open>n\<close>), distinct, with \<open>spine_action\<close> holding the address of the
  inner dictionary.
\<close>

definition spine_cells :: "nat \<Rightarrow> nat \<Rightarrow> nat \<Rightarrow> heap \<Rightarrow> bool" where
  "spine_cells n sp sv h =
     (n \<le> sp \<and> n \<le> sv \<and> sp \<noteq> sv \<and> sp < fresh h \<and> sv < fresh h \<and>
      cells h sp = Some (Table [''servo'' \<mapsto> sv]))"

text \<open>
  A store for the example robot: the three tables (every joint shares one row per
  table) and an action that asks every joint for the position \<open>3\<close>.
\<close>

definition upkie_heap :: heap where
  "upkie_heap =
     \<lparr>cells =
        [0 \<mapsto> Row [''feedforward_torque'' \<mapsto> 0, ''kp_scale'' \<mapsto> 1, ''kd_scale'' \<mapsto> 1,
                     ''maximum_torque'' \<mapsto> 16],
         1 \<mapsto> Table (\<lambda>joint. if joint \<in> set JOINT_NAMES then Some 0 else None),
         2 \<mapsto> Row [''position'' \<mapsto> 1, ''velocity'' \<mapsto> 10, ''feedforward_torque'' \<mapsto> 16,
                     ''kp_scale'' \<mapsto> 1, ''kd_scale'' \<mapsto> 1, ''maximum_torque'' \<mapsto> 16],
         3 \<mapsto> Table (\<lambda>joint. if joint \<in> set JOINT_NAMES then Some 2 else None),
         4 \<mapsto> Row [''position'' \<mapsto> - 1, ''velocity'' \<mapsto> - 10, ''feedforward_torque'' \<mapsto> - 16,
                     ''kp_scale'' \<mapsto> 0, ''kd_scale'' \<mapsto> 0, ''maximum_torque'' \<mapsto> 0],
         5 \<mapsto> Table (\<lambda>joint. if joint \<in> set JOINT_NAMES then Some 4 else None),
         6 \<mapsto> Row [''position'' \<mapsto> 3, ''velocity'' \<mapsto> 0],
         7 \<mapsto> Table (\<lambda>joint. if joint \<in> set JOINT_NAMES then Some 6 else None)],
      fresh = 8\<rparr>"

definition upkie_refs :: self_refs where
  "upkie_refs = \<lparr>default_ref = 1, max_ref = 3, min_ref = 5\<rparr>"

section \<open>Properties of the constructor\<close>

lemma space_loop_both:
  "space_loop l joint name [True, False] (act, obs) =
     (act(name \<mapsto> space_entry l joint), obs(name \<mapsto> space_entry l joint))"
  by simp

lemma init_loop_default:
  "default_action (init_loop m l ns self) =
     (\<lambda>n. if n \<in> set ns then Some (default_entry l (joint_of m n)) else default_action self n)"
  by (induction ns arbitrary: self) (auto simp: init_step_def joint_of_def fun_eq_iff Let_def)

lemma init_loop_max:
  "max_action (init_loop m l ns self) =
     (\<lambda>n. if n \<in> set ns then Some (max_entry l (joint_of m n)) else max_action self n)"
  by (induction ns arbitrary: self) (auto simp: init_step_def joint_of_def fun_eq_iff Let_def)

lemma init_loop_min:
  "min_action (init_loop m l ns self) =
     (\<lambda>n. if n \<in> set ns then Some (min_entry l (joint_of m n)) else min_action self n)"
  by (induction ns arbitrary: self) (auto simp: init_step_def joint_of_def fun_eq_iff Let_def)

lemma init_loop_action_space:
  "action_space (init_loop m l ns self) =
     (\<lambda>n. if n \<in> set ns then Some (space_entry l (joint_of m n)) else action_space self n)"
  by (induction ns arbitrary: self) (auto simp: init_step_def joint_of_def fun_eq_iff Let_def)

lemma init_loop_observation_space:
  "observation_space (init_loop m l ns self) =
     (\<lambda>n. if n \<in> set ns then Some (space_entry l (joint_of m n)) else observation_space self n)"
  by (induction ns arbitrary: self) (auto simp: init_step_def joint_of_def fun_eq_iff Let_def)

lemma init_Inr_iff:
  "UpkieServos_init m l = Inr self \<longleftrightarrow>
     set (tl (names m)) = set JOINT_NAMES \<and> self = init_loop m l (tl (names m)) empty_tables"
  by (auto simp: UpkieServos_init_def Let_def)

lemma init_tables:
  assumes "UpkieServos_init m l = Inr self" and "j \<in> set JOINT_NAMES"
  shows "default_action self j = Some (default_entry l (joint_of m j))"
    and "min_action self j = Some (min_entry l (joint_of m j))"
    and "max_action self j = Some (max_entry l (joint_of m j))"
    and "action_space self j = Some (space_entry l (joint_of m j))"
    and "observation_space self j = Some (space_entry l (joint_of m j))"
  using assms
  by (simp_all add: init_Inr_iff init_loop_default init_loop_min init_loop_max
      init_loop_action_space init_loop_observation_space)

lemma action_key_cases:
  "k \<in> set ACTION_KEYS \<longleftrightarrow>
     k = ''position'' \<or> k = ''velocity'' \<or> k = ''feedforward_torque'' \<or> k = ''kp_scale'' \<or>
     k = ''kd_scale'' \<or> k = ''maximum_torque''"
  by (simp add: ACTION_KEYS_def)

lemma min_entry_Some:
  "k \<in> set ACTION_KEYS \<Longrightarrow> \<exists>lo. min_entry l jt k = Some lo"
  by (auto simp: action_key_cases min_entry_def)

lemma max_entry_Some:
  "k \<in> set ACTION_KEYS \<Longrightarrow> \<exists>hi. max_entry l jt k = Some hi"
  by (auto simp: action_key_cases max_entry_def)

lemma dom_min_entry: "dom (min_entry l jt) = set ACTION_KEYS"
  by (auto simp: min_entry_def ACTION_KEYS_def split: if_splits)

lemma dom_max_entry: "dom (max_entry l jt) = set ACTION_KEYS"
  by (auto simp: max_entry_def ACTION_KEYS_def split: if_splits)

lemma dom_space_entry: "dom (space_entry l jt) = set ACTION_KEYS"
  by (auto simp: space_entry_def ACTION_KEYS_def split: if_splits)

lemma entry_ordered:
  assumes "q_min l (idx_q jt) \<le> q_max l (idx_q jt)" and "0 \<le> v_max l (idx_v jt)"
    and "0 \<le> tau_max l (idx_v jt)" and "k \<in> set ACTION_KEYS"
    and "min_entry l jt k = Some lo" and "max_entry l jt k = Some hi"
  shows "lo \<le> hi"
  using assms by (auto simp: action_key_cases min_entry_def max_entry_def)

lemma table_lookup_Some:
  "table j = Some row \<Longrightarrow> row k = Some v \<Longrightarrow> table_lookup table j k = Inr v"
  by (simp add: table_lookup_def)

lemma upkie_names: "set (tl (names upkie_model)) = set JOINT_NAMES"
  by (auto simp: upkie_model_def JOINT_NAMES_def)

lemma upkie_init: "UpkieServos_init upkie_model upkie_limits = Inr upkie_env"
  by (simp add: init_Inr_iff upkie_names upkie_env_def)

lemma upkie_valid: "valid_limits upkie_model upkie_limits"
  by (simp add: valid_limits_def upkie_limits_def)

text \<open>
  C3: the constructor raises \<open>ModelError\<close> exactly when the set of the joint names of
  the model (\<open>model.names\<close> without its first entry) differs from the set of
  \<open>JOINT_NAMES\<close>, whatever the order and the repetitions; the error carries
  \<open>JOINT_NAMES\<close> and the joint names of the model; when the sets are equal the
  constructor returns an object.
\<close>

theorem init_model_error_iff:
  "(set (tl (names model)) \<noteq> set JOINT_NAMES \<longrightarrow>
      UpkieServos_init model l = Inl (ModelError JOINT_NAMES (tl (names model)))) \<and>
   (set (tl (names model)) = set JOINT_NAMES \<longrightarrow>
      (\<exists>self. UpkieServos_init model l = Inr self))"
  by (simp add: UpkieServos_init_def Let_def)

theorem init_model_error_iff_witness:
  "UpkieServos_init renamed_model upkie_limits =
     Inl (ModelError JOINT_NAMES [''left_hip'', ''left_knee'']) \<and>
   (\<exists>self. UpkieServos_init upkie_model upkie_limits = Inr self)"
proof -
  have "''right_wheel'' \<in> set JOINT_NAMES"
    by (simp add: JOINT_NAMES_def)
  moreover have "''right_wheel'' \<notin> set (tl (names renamed_model))"
    by (simp add: renamed_model_def)
  ultimately have differs: "set (tl (names renamed_model)) \<noteq> set JOINT_NAMES"
    by metis
  have got: "tl (names renamed_model) = [''left_hip'', ''left_knee'']"
    by (simp add: renamed_model_def)
  from init_model_error_iff [of renamed_model upkie_limits] differs
  have "UpkieServos_init renamed_model upkie_limits =
          Inl (ModelError JOINT_NAMES (tl (names renamed_model)))"
    by blast
  moreover from init_model_error_iff [of upkie_model upkie_limits] upkie_names
  have "\<exists>self. UpkieServos_init upkie_model upkie_limits = Inr self"
    by blast
  ultimately show ?thesis
    unfolding got by blast
qed

text \<open>
  C7: for a model with the six joints and well-formed limits, the tables \<open>min_action\<close>
  and \<open>max_action\<close> hold the six fields of every joint with \<open>min \<le> max\<close>; the
  position bounds are the joint limits of the model, the velocity and feedforward torque
  bounds are symmetric around zero with the magnitudes of the model, the bounds of
  \<open>kp_scale\<close> and \<open>kd_scale\<close> are \<open>[0, 1]\<close> and those of \<open>maximum_torque\<close> are
  \<open>[0, tau_max]\<close>.
\<close>

theorem bounds_tables_ordered:
  assumes "UpkieServos_init model l = Inr self"
    and "valid_limits model l"
    and "name \<in> set JOINT_NAMES"
  shows "\<exists>mn mx. min_action self name = Some mn \<and> max_action self name = Some mx \<and>
           dom mn = set ACTION_KEYS \<and> dom mx = set ACTION_KEYS \<and>
           (\<forall>key \<in> set ACTION_KEYS. \<exists>lo hi. mn key = Some lo \<and> mx key = Some hi \<and> lo \<le> hi) \<and>
           mn ''position'' = Some (q_min l (idx_q (joints model (getJointId model name)))) \<and>
           mx ''position'' = Some (q_max l (idx_q (joints model (getJointId model name)))) \<and>
           mn ''velocity'' = Some (- v_max l (idx_v (joints model (getJointId model name)))) \<and>
           mx ''velocity'' = Some (v_max l (idx_v (joints model (getJointId model name)))) \<and>
           mn ''feedforward_torque'' =
             Some (- tau_max l (idx_v (joints model (getJointId model name)))) \<and>
           mx ''feedforward_torque'' =
             Some (tau_max l (idx_v (joints model (getJointId model name)))) \<and>
           mn ''kp_scale'' = Some 0 \<and> mx ''kp_scale'' = Some 1 \<and>
           mn ''kd_scale'' = Some 0 \<and> mx ''kd_scale'' = Some 1 \<and>
           mn ''maximum_torque'' = Some 0 \<and>
           mx ''maximum_torque'' = Some (tau_max l (idx_v (joints model (getJointId model name))))"
proof -
  let ?jt = "joint_of model name"
  have mn: "min_action self name = Some (min_entry l ?jt)"
    and mx: "max_action self name = Some (max_entry l ?jt)"
    using init_tables [OF assms(1) assms(3)] by simp_all
  from assms(2,3) have lim: "q_min l (idx_q ?jt) \<le> q_max l (idx_q ?jt)"
    "0 \<le> v_max l (idx_v ?jt)" "0 \<le> tau_max l (idx_v ?jt)"
    by (simp_all add: valid_limits_def)
  have ordered: "\<forall>key \<in> set ACTION_KEYS. \<exists>lo hi.
      min_entry l ?jt key = Some lo \<and> max_entry l ?jt key = Some hi \<and> lo \<le> hi"
  proof
    fix key assume key: "key \<in> set ACTION_KEYS"
    from min_entry_Some [OF key] obtain lo where lo: "min_entry l ?jt key = Some lo" by blast
    from max_entry_Some [OF key] obtain hi where hi: "max_entry l ?jt key = Some hi" by blast
    from entry_ordered [OF lim key lo hi] lo hi
    show "\<exists>lo hi. min_entry l ?jt key = Some lo \<and> max_entry l ?jt key = Some hi \<and> lo \<le> hi"
      by blast
  qed
  have vals: "min_entry l ?jt ''position'' = Some (q_min l (idx_q ?jt))"
    "max_entry l ?jt ''position'' = Some (q_max l (idx_q ?jt))"
    "min_entry l ?jt ''velocity'' = Some (- v_max l (idx_v ?jt))"
    "max_entry l ?jt ''velocity'' = Some (v_max l (idx_v ?jt))"
    "min_entry l ?jt ''feedforward_torque'' = Some (- tau_max l (idx_v ?jt))"
    "max_entry l ?jt ''feedforward_torque'' = Some (tau_max l (idx_v ?jt))"
    "min_entry l ?jt ''kp_scale'' = Some 0" "max_entry l ?jt ''kp_scale'' = Some 1"
    "min_entry l ?jt ''kd_scale'' = Some 0" "max_entry l ?jt ''kd_scale'' = Some 1"
    "min_entry l ?jt ''maximum_torque'' = Some 0"
    "max_entry l ?jt ''maximum_torque'' = Some (tau_max l (idx_v ?jt))"
    by (simp_all add: min_entry_def max_entry_def)
  show ?thesis
    using mn mx ordered vals dom_min_entry [of l ?jt] dom_max_entry [of l ?jt]
    unfolding joint_of_def by simp
qed

theorem bounds_tables_ordered_witness:
  "\<exists>mn mx. min_action upkie_env ''left_hip'' = Some mn \<and>
     max_action upkie_env ''left_hip'' = Some mx \<and>
     (\<forall>key \<in> set ACTION_KEYS. \<exists>lo hi. mn key = Some lo \<and> mx key = Some hi \<and> lo \<le> hi) \<and>
     mn ''position'' = Some (- 1) \<and> mx ''position'' = Some 1 \<and>
     mn ''kp_scale'' = Some 0 \<and> mx ''kp_scale'' = Some 1 \<and>
     mn ''maximum_torque'' = Some 0 \<and> mx ''maximum_torque'' = Some 16"
proof -
  have j: "''left_hip'' \<in> set JOINT_NAMES" by (simp add: JOINT_NAMES_def)
  have q: "q_min upkie_limits (idx_q (joints upkie_model (getJointId upkie_model ''left_hip''))) = - 1"
    "q_max upkie_limits (idx_q (joints upkie_model (getJointId upkie_model ''left_hip''))) = 1"
    "tau_max upkie_limits (idx_v (joints upkie_model (getJointId upkie_model ''left_hip''))) = 16"
    by (simp_all add: upkie_model_def upkie_limits_def)
  from bounds_tables_ordered [OF upkie_init upkie_valid j] show ?thesis
    unfolding q by blast
qed

text \<open>
  C10: the observation space built by the constructor equals the action space: for every
  joint both hold the same six fields with the same ranges.
\<close>

theorem spaces_identical:
  assumes "UpkieServos_init model l = Inr self"
  shows "observation_space self = action_space self \<and>
         dom (action_space self) = set JOINT_NAMES \<and>
         (\<forall>name \<in> set JOINT_NAMES. \<exists>sp.
            action_space self name = Some sp \<and> observation_space self name = Some sp \<and>
            dom sp = set ACTION_KEYS)"
proof -
  from assms have ns: "set (tl (names model)) = set JOINT_NAMES"
    and self: "self = init_loop model l (tl (names model)) empty_tables"
    by (simp_all add: init_Inr_iff)
  have same: "observation_space self = action_space self"
    by (simp add: self init_loop_action_space init_loop_observation_space empty_tables_def
        fun_eq_iff)
  have d: "dom (action_space self) = set JOINT_NAMES"
    by (auto simp: self init_loop_action_space empty_tables_def ns split: if_splits)
  have each: "\<forall>name \<in> set JOINT_NAMES. \<exists>sp.
            action_space self name = Some sp \<and> observation_space self name = Some sp \<and>
            dom sp = set ACTION_KEYS"
    using init_tables(4,5) [OF assms] dom_space_entry by blast
  from same d each show ?thesis by blast
qed

theorem spaces_identical_witness:
  "observation_space upkie_env = action_space upkie_env \<and>
   (\<exists>sp. action_space upkie_env ''right_wheel'' = Some sp \<and>
      observation_space upkie_env ''right_wheel'' = Some sp \<and> dom sp = set ACTION_KEYS)"
proof -
  have j: "''right_wheel'' \<in> set JOINT_NAMES" by (simp add: JOINT_NAMES_def)
  from spaces_identical [OF upkie_init] j show ?thesis by blast
qed

section \<open>Properties of the loops of \<open>get_spine_action\<close>\<close>

lemma key_loop_step:
  "key_loop self a j (k # ks) sa lg =
     (case clamp_field self a j k of
        Inl e \<Rightarrow> (Inl e, lg)
      | Inr (v, ws) \<Rightarrow> key_loop self a j ks (sa(k \<mapsto> v)) (lg @ ws))"
  by (simp add: clamp_field_def split: sum.splits prod.splits)

lemma key_loop_all_ok:
  "\<forall>k \<in> set ks. field_ok self a j k \<Longrightarrow>
   key_loop self a j ks sa lg =
     (Inr (\<lambda>k. if k \<in> set ks then field_value self a j k else sa k),
      lg @ concat (map (field_warnings self a j) ks))"
proof (induction ks arbitrary: sa lg)
  case Nil
  show ?case by simp
next
  case (Cons k ks)
  from Cons.prems obtain v ws where kv: "clamp_field self a j k = Inr (v, ws)"
    by (auto simp: field_ok_def split: sum.splits)
  from Cons.prems have rest: "\<forall>k \<in> set ks. field_ok self a j k" by simp
  have fv: "field_value self a j k = Some v" and fw: "field_warnings self a j k = ws"
    using kv by (simp_all add: field_value_def field_warnings_def)
  show ?case
    unfolding key_loop_step kv
    by (simp add: Cons.IH [OF rest] fv fw fun_eq_iff)
qed

lemma key_loop_first_error:
  "\<forall>k \<in> set ks1. field_ok self a j k \<Longrightarrow> clamp_field self a j k = Inl e \<Longrightarrow>
   key_loop self a j (ks1 @ k # ks2) sa lg =
     (Inl e, lg @ concat (map (field_warnings self a j) ks1))"
proof (induction ks1 arbitrary: sa lg)
  case Nil
  then show ?case by (simp add: key_loop_step del: key_loop.simps)
next
  case (Cons k1 ks1)
  from Cons.prems obtain v ws where kv: "clamp_field self a j k1 = Inr (v, ws)"
    by (auto simp: field_ok_def split: sum.splits)
  have fw: "field_warnings self a j k1 = ws"
    using kv by (simp add: field_warnings_def)
  from Cons.prems have rest: "\<forall>k \<in> set ks1. field_ok self a j k" by simp
  show ?case
    using Cons.IH [OF rest Cons.prems(2)]
    by (simp add: key_loop_step kv fw del: key_loop.simps)
qed

lemma key_loop_joint_ok:
  "joint_ok self a j \<Longrightarrow>
   key_loop self a j ACTION_KEYS Map.empty lg = (Inr (servo_row self a j), lg @ joint_warnings self a j)"
  unfolding joint_ok_def
  by (simp add: key_loop_all_ok servo_row_def joint_warnings_def fun_eq_iff del: key_loop.simps)

lemma joint_loop_all_ok:
  "\<forall>j \<in> set js. joint_ok self a j \<Longrightarrow>
   joint_loop self a js servo lg =
     (Inr (\<lambda>j. if j \<in> set js then Some (servo_row self a j) else servo j),
      lg @ concat (map (joint_warnings self a) js))"
proof (induction js arbitrary: servo lg)
  case Nil
  show ?case by simp
next
  case (Cons j js)
  from Cons.prems have j: "joint_ok self a j" and rest: "\<forall>j \<in> set js. joint_ok self a j"
    by simp_all
  show ?case
    by (simp add: key_loop_joint_ok [OF j] Cons.IH [OF rest] fun_eq_iff)
qed

lemma joint_loop_first_error:
  "\<forall>j \<in> set js1. joint_ok self a j \<Longrightarrow>
   key_loop self a j ACTION_KEYS Map.empty (lg @ concat (map (joint_warnings self a) js1)) = (Inl e, lg') \<Longrightarrow>
   joint_loop self a (js1 @ j # js2) servo lg = (Inl e, lg')"
proof (induction js1 arbitrary: servo lg)
  case Nil
  then show ?case by simp
next
  case (Cons j1 js1)
  from Cons.prems have j: "joint_ok self a j1" and rest: "\<forall>j \<in> set js1. joint_ok self a j"
    by simp_all
  show ?case
    using Cons.IH [OF rest, of "lg @ joint_warnings self a j1"] Cons.prems(2)
    by (simp add: key_loop_joint_ok [OF j])
qed

section \<open>Properties of \<open>get_spine_action\<close>\<close>

lemma clamp_field_eq:
  "resolve_action self a j k = Inr v \<Longrightarrow> table_lookup (min_action self) j k = Inr lo \<Longrightarrow>
   table_lookup (max_action self) j k = Inr hi \<Longrightarrow>
   clamp_field self a j k = Inr (clamp_and_warn v lo hi (clamp_label j k))"
  by (simp add: clamp_field_def)

lemma clamp_and_warn_bounds:
  "lo \<le> hi \<Longrightarrow> lo \<le> fst (clamp_and_warn v lo hi lbl) \<and> fst (clamp_and_warn v lo hi lbl) \<le> hi"
  by (simp add: clamp_and_warn_def)

lemma clamp_and_warn_inside:
  "lo \<le> v \<Longrightarrow> v \<le> hi \<Longrightarrow> clamp_and_warn v lo hi lbl = (v, [])"
  by (simp add: clamp_and_warn_def)



lemma default_entry_Some:
  "k \<in> set ACTION_KEYS \<Longrightarrow> k \<noteq> ''position'' \<Longrightarrow> k \<noteq> ''velocity'' \<Longrightarrow>
   \<exists>v. default_entry l jt k = Some v"
  by (auto simp: action_key_cases default_entry_def)

lemma default_entry_required:
  "default_entry l jt ''position'' = None" "default_entry l jt ''velocity'' = None"
  by (simp_all add: default_entry_def)

lemma resolve_supplied:
  "a j = Some entry \<Longrightarrow> entry k = Some v \<Longrightarrow> resolve_action self a j k = Inr v"
  by (simp add: resolve_action_def)

lemma resolve_default:
  "a j = Some entry \<Longrightarrow> entry k = None \<Longrightarrow> default_action self j = Some d \<Longrightarrow> d k = Some v \<Longrightarrow>
   resolve_action self a j k = Inr v"
  by (simp add: resolve_action_def)

lemma resolve_no_entry:
  "a j = None \<Longrightarrow> resolve_action self a j k = Inl (ActionError (missing_key_message k j))"
  by (simp add: resolve_action_def)

lemma resolve_no_default:
  "a j = Some entry \<Longrightarrow> entry k = None \<Longrightarrow> default_action self j = Some d \<Longrightarrow> d k = None \<Longrightarrow>
   resolve_action self a j k = Inl (ActionError (missing_key_message k j))"
  by (simp add: resolve_action_def)

lemma init_lookups:
  assumes "UpkieServos_init m l = Inr self" and "j \<in> set JOINT_NAMES" and "k \<in> set ACTION_KEYS"
  shows "\<exists>lo hi. table_lookup (min_action self) j k = Inr lo \<and>
           table_lookup (max_action self) j k = Inr hi \<and>
           min_entry l (joint_of m j) k = Some lo \<and> max_entry l (joint_of m j) k = Some hi"
proof -
  from min_entry_Some [OF assms(3)] obtain lo where lo: "min_entry l (joint_of m j) k = Some lo"
    by blast
  from max_entry_Some [OF assms(3)] obtain hi where hi: "max_entry l (joint_of m j) k = Some hi"
    by blast
  from init_tables(2,3) [OF assms(1,2)] lo hi show ?thesis
    by (simp add: table_lookup_def)
qed

lemma init_lookups_ordered:
  assumes "UpkieServos_init m l = Inr self" and "valid_limits m l"
    and "j \<in> set JOINT_NAMES" and "k \<in> set ACTION_KEYS"
    and "table_lookup (min_action self) j k = Inr lo"
    and "table_lookup (max_action self) j k = Inr hi"
  shows "lo \<le> hi"
proof -
  from init_lookups [OF assms(1,3,4)] assms(5,6)
  have lo: "min_entry l (joint_of m j) k = Some lo" and hi: "max_entry l (joint_of m j) k = Some hi"
    by auto
  from assms(2,3) have "q_min l (idx_q (joint_of m j)) \<le> q_max l (idx_q (joint_of m j))"
    "0 \<le> v_max l (idx_v (joint_of m j))" "0 \<le> tau_max l (idx_v (joint_of m j))"
    by (simp_all add: valid_limits_def)
  from entry_ordered [OF this assms(4) lo hi] show ?thesis .
qed

lemma init_resolve:
  assumes "UpkieServos_init m l = Inr self" and "j \<in> set JOINT_NAMES" and "k \<in> set ACTION_KEYS"
    and "supplies_required a j"
  shows "\<exists>v. resolve_action self a j k = Inr v"
proof -
  from assms(4) obtain entry where entry: "a j = Some entry"
    and req: "entry ''position'' \<noteq> None" "entry ''velocity'' \<noteq> None"
    by (auto simp: supplies_required_def split: option.splits)
  show ?thesis
  proof (cases "entry k")
    case (Some v)
    with entry show ?thesis by (auto simp: resolve_supplied)
  next
    case None
    with req have "k \<noteq> ''position''" "k \<noteq> ''velocity''" by auto
    from default_entry_Some [OF assms(3) this]
    obtain v where v: "default_entry l (joint_of m j) k = Some v" by blast
    have "default_action self j = Some (default_entry l (joint_of m j))"
      using init_tables(1) [OF assms(1,2)] .
    with entry None v have "resolve_action self a j k = Inr v"
      by (simp add: resolve_action_def)
    then show ?thesis by blast
  qed
qed

lemma init_field_ok:
  assumes "UpkieServos_init m l = Inr self" and "j \<in> set JOINT_NAMES" and "k \<in> set ACTION_KEYS"
    and "supplies_required a j"
  shows "field_ok self a j k"
proof -
  from init_resolve [OF assms] obtain v where v: "resolve_action self a j k = Inr v" by blast
  from init_lookups [OF assms(1,2,3)] obtain lo hi
    where "table_lookup (min_action self) j k = Inr lo" "table_lookup (max_action self) j k = Inr hi"
    by blast
  from clamp_field_eq [OF v this] show ?thesis by (simp add: field_ok_def)
qed

lemma init_joint_ok:
  "UpkieServos_init m l = Inr self \<Longrightarrow> j \<in> set JOINT_NAMES \<Longrightarrow> supplies_required a j \<Longrightarrow>
   joint_ok self a j"
  by (simp add: joint_ok_def init_field_ok)

lemma get_spine_action_all_ok:
  assumes "\<forall>j \<in> set JOINT_NAMES. joint_ok self a j"
  shows "get_spine_action self a =
     (Inr [''servo'' \<mapsto> (\<lambda>j. if j \<in> set JOINT_NAMES then Some (servo_row self a j) else None)],
      concat (map (joint_warnings self a) JOINT_NAMES))"
  by (simp add: get_spine_action_def joint_loop_all_ok [OF assms])

lemma servo_row_value:
  assumes "k \<in> set ACTION_KEYS" and "resolve_action self a j k = Inr v"
    and "table_lookup (min_action self) j k = Inr lo" and "table_lookup (max_action self) j k = Inr hi"
  shows "servo_row self a j k = Some (fst (clamp_and_warn v lo hi (clamp_label j k)))"
    and "field_warnings self a j k = snd (clamp_and_warn v lo hi (clamp_label j k))"
  using assms(1) clamp_field_eq [OF assms(2,3,4)]
  by (simp_all add: servo_row_def field_value_def field_warnings_def split: prod.splits)

lemma dom_servo_row:
  "joint_ok self a j \<Longrightarrow> dom (servo_row self a j) = set ACTION_KEYS"
  by (auto simp: joint_ok_def field_ok_def servo_row_def field_value_def
      split: if_splits sum.splits prod.splits)


lemma scenario_supplies: "\<forall>joint \<in> set JOINT_NAMES. supplies_required scenario_action joint"
  by (simp add: JOINT_NAMES_def supplies_required_def scenario_action_def)

text \<open>
  C1: on an object built by the constructor from a model with well-formed limits, every
  action that supplies a position and a velocity for each of the six joints gives a
  command batch \<open>{"servo": {joint: {field: value}}}\<close> that holds exactly the six joints,
  each with exactly the six fields, and every value lies between the entries that the
  dictionaries \<open>min_action\<close> and \<open>max_action\<close> hold for its joint and field, bounds
  included.
\<close>

theorem batch_complete_and_bounded:
  assumes "UpkieServos_init model l = Inr self"
    and "valid_limits model l"
    and "\<forall>joint \<in> set JOINT_NAMES. supplies_required env_action joint"
  shows "\<exists>servo ws.
           get_spine_action self env_action = (Inr [''servo'' \<mapsto> servo], ws) \<and>
           dom servo = set JOINT_NAMES \<and>
           (\<forall>joint \<in> set JOINT_NAMES. \<exists>row mn mx.
              servo joint = Some row \<and> dom row = set ACTION_KEYS \<and>
              min_action self joint = Some mn \<and> max_action self joint = Some mx \<and>
              (\<forall>key \<in> set ACTION_KEYS. \<exists>v lower upper.
                 row key = Some v \<and> mn key = Some lower \<and> mx key = Some upper \<and>
                 lower \<le> v \<and> v \<le> upper))"
proof -
  let ?servo = "\<lambda>j. if j \<in> set JOINT_NAMES then Some (servo_row self env_action j) else None"
  have ok: "\<forall>j \<in> set JOINT_NAMES. joint_ok self env_action j"
    using assms(1,3) by (simp add: init_joint_ok)
  have run: "get_spine_action self env_action =
      (Inr [''servo'' \<mapsto> ?servo], concat (map (joint_warnings self env_action) JOINT_NAMES))"
    by (rule get_spine_action_all_ok [OF ok])
  have d: "dom ?servo = set JOINT_NAMES"
    by (auto split: if_splits)
  have rows: "\<forall>joint \<in> set JOINT_NAMES. \<exists>row mn mx.
       ?servo joint = Some row \<and> dom row = set ACTION_KEYS \<and>
       min_action self joint = Some mn \<and> max_action self joint = Some mx \<and>
       (\<forall>key \<in> set ACTION_KEYS. \<exists>v lower upper.
          row key = Some v \<and> mn key = Some lower \<and> mx key = Some upper \<and>
          lower \<le> v \<and> v \<le> upper)"
  proof
    fix joint assume j: "joint \<in> set JOINT_NAMES"
    let ?mn = "min_entry l (joint_of model joint)" and ?mx = "max_entry l (joint_of model joint)"
    note tabs = init_tables(2,3) [OF assms(1) j]
    have each: "\<forall>key \<in> set ACTION_KEYS. \<exists>v lower upper.
          servo_row self env_action joint key = Some v \<and>
          ?mn key = Some lower \<and> ?mx key = Some upper \<and> lower \<le> v \<and> v \<le> upper"
    proof
      fix key assume k: "key \<in> set ACTION_KEYS"
      from assms(3) j have "supplies_required env_action joint" by simp
      from init_resolve [OF assms(1) j k this]
      obtain x where x: "resolve_action self env_action joint key = Inr x" by blast
      from init_lookups [OF assms(1) j k] obtain lo hi
        where lo: "table_lookup (min_action self) joint key = Inr lo"
          and hi: "table_lookup (max_action self) joint key = Inr hi"
          and mn: "?mn key = Some lo" and mx: "?mx key = Some hi"
        by blast
      have "lo \<le> hi" by (rule init_lookups_ordered [OF assms(1,2) j k lo hi])
      from clamp_and_warn_bounds [OF this] servo_row_value(1) [OF k x lo hi] mn mx
      show "\<exists>v lower upper.
          servo_row self env_action joint key = Some v \<and>
          ?mn key = Some lower \<and> ?mx key = Some upper \<and> lower \<le> v \<and> v \<le> upper"
        by blast
    qed
    have dr: "dom (servo_row self env_action joint) = set ACTION_KEYS"
      using ok j by (simp add: dom_servo_row)
    show "\<exists>row mn mx.
       ?servo joint = Some row \<and> dom row = set ACTION_KEYS \<and>
       min_action self joint = Some mn \<and> max_action self joint = Some mx \<and>
       (\<forall>key \<in> set ACTION_KEYS. \<exists>v lower upper.
          row key = Some v \<and> mn key = Some lower \<and> mx key = Some upper \<and>
          lower \<le> v \<and> v \<le> upper)"
    proof (rule exI [of _ "servo_row self env_action joint"], rule exI [of _ ?mn],
        rule exI [of _ ?mx], intro conjI)
      show "?servo joint = Some (servo_row self env_action joint)" using j by simp
      show "dom (servo_row self env_action joint) = set ACTION_KEYS" by (rule dr)
      show "min_action self joint = Some ?mn" by (rule tabs(1))
      show "max_action self joint = Some ?mx" by (rule tabs(2))
      show "\<forall>key \<in> set ACTION_KEYS. \<exists>v lower upper.
          servo_row self env_action joint key = Some v \<and>
          ?mn key = Some lower \<and> ?mx key = Some upper \<and> lower \<le> v \<and> v \<le> upper"
        by (rule each)
    qed
  qed
  from run d rows show ?thesis by blast
qed

theorem batch_complete_and_bounded_witness:
  "\<exists>servo ws row mn mx v.
     get_spine_action upkie_env scenario_action = (Inr [''servo'' \<mapsto> servo], ws) \<and>
     dom servo = set JOINT_NAMES \<and>
     servo ''left_hip'' = Some row \<and> dom row = set ACTION_KEYS \<and>
     min_action upkie_env ''left_hip'' = Some mn \<and> max_action upkie_env ''left_hip'' = Some mx \<and>
     mn ''position'' = Some (- 1) \<and> mx ''position'' = Some 1 \<and>
     row ''position'' = Some v \<and> - 1 \<le> v \<and> v \<le> 1"
proof -
  have j: "''left_hip'' \<in> set JOINT_NAMES" by (simp add: JOINT_NAMES_def)
  have k: "''position'' \<in> set ACTION_KEYS" by (simp add: ACTION_KEYS_def)
  from batch_complete_and_bounded [OF upkie_init upkie_valid scenario_supplies] obtain servo ws
    where run: "get_spine_action upkie_env scenario_action = (Inr [''servo'' \<mapsto> servo], ws)"
      and d: "dom servo = set JOINT_NAMES"
      and rows: "\<forall>joint \<in> set JOINT_NAMES. \<exists>row mn mx.
              servo joint = Some row \<and> dom row = set ACTION_KEYS \<and>
              min_action upkie_env joint = Some mn \<and> max_action upkie_env joint = Some mx \<and>
              (\<forall>key \<in> set ACTION_KEYS. \<exists>v lower upper.
                 row key = Some v \<and> mn key = Some lower \<and> mx key = Some upper \<and>
                 lower \<le> v \<and> v \<le> upper)"
    by blast
  from rows j obtain row mn mx
    where row: "servo ''left_hip'' = Some row" "dom row = set ACTION_KEYS"
      and mn: "min_action upkie_env ''left_hip'' = Some mn"
      and mx: "max_action upkie_env ''left_hip'' = Some mx"
      and each: "\<forall>key \<in> set ACTION_KEYS. \<exists>v lower upper.
                 row key = Some v \<and> mn key = Some lower \<and> mx key = Some upper \<and>
                 lower \<le> v \<and> v \<le> upper"
    by blast
  from each k obtain v lower upper
    where v: "row ''position'' = Some v" and lo: "mn ''position'' = Some lower"
      and hi: "mx ''position'' = Some upper" and b: "lower \<le> v" "v \<le> upper"
    by blast
  from init_tables(2,3) [OF upkie_init j] mn mx
  have "mn ''position'' = Some (- 1)" "mx ''position'' = Some 1"
    by (auto simp: min_entry_def max_entry_def joint_of_def upkie_model_def upkie_limits_def)
  with lo hi b have "mn ''position'' = Some (- 1)" "mx ''position'' = Some 1" "- 1 \<le> v" "v \<le> 1"
    by simp_all
  with run d row mn mx v show ?thesis by blast
qed






lemma omitted_field_default:
  assumes init: "UpkieServos_init model l = Inr self"
    and j: "joint \<in> set JOINT_NAMES" and k: "key \<in> set ACTION_KEYS"
    and entry: "env_action joint = Some entry" and omit: "entry key = None"
    and dflt: "default_entry l (joint_of model joint) key = Some v"
    and lo: "min_entry l (joint_of model joint) key = Some lo"
    and hi: "max_entry l (joint_of model joint) key = Some hi"
    and inside: "lo \<le> v" "v \<le> hi"
  shows "servo_row self env_action joint key = Some v"
proof -
  note tabs = init_tables [OF init j]
  have r: "resolve_action self env_action joint key = Inr v"
    using entry omit tabs(1) dflt by (simp add: resolve_action_def)
  have tl: "table_lookup (min_action self) joint key = Inr lo"
    and th: "table_lookup (max_action self) joint key = Inr hi"
    using tabs(2,3) lo hi by (simp_all add: table_lookup_def)
  from servo_row_value(1) [OF k r tl th] clamp_and_warn_inside [OF inside]
  show ?thesis by simp
qed

text \<open>
  C5: under the same hypotheses, for a joint whose entry omits \<open>feedforward_torque\<close>,
  \<open>kp_scale\<close>, \<open>kd_scale\<close> or \<open>maximum_torque\<close>, the batch holds the default of that
  field for the joint: \<open>0\<close>, \<open>1\<close>, \<open>1\<close> and the torque limit of the model.
\<close>

theorem omitted_fields_take_defaults:
  assumes "UpkieServos_init model l = Inr self"
    and "valid_limits model l"
    and "\<forall>j \<in> set JOINT_NAMES. supplies_required env_action j"
    and "joint \<in> set JOINT_NAMES"
    and "env_action joint = Some entry"
  shows "\<exists>servo ws row dflt.
           get_spine_action self env_action = (Inr [''servo'' \<mapsto> servo], ws) \<and>
           servo joint = Some row \<and>
           default_action self joint = Some dflt \<and>
           dflt ''feedforward_torque'' = Some 0 \<and>
           dflt ''kp_scale'' = Some 1 \<and>
           dflt ''kd_scale'' = Some 1 \<and>
           dflt ''maximum_torque'' = Some (tau_max l (idx_v (joints model (getJointId model joint)))) \<and>
           (\<forall>key \<in> {''feedforward_torque'', ''kp_scale'', ''kd_scale'', ''maximum_torque''}.
              entry key = None \<longrightarrow> row key = dflt key)"
proof -
  let ?servo = "\<lambda>j. if j \<in> set JOINT_NAMES then Some (servo_row self env_action j) else None"
  let ?ws = "concat (map (joint_warnings self env_action) JOINT_NAMES)"
  let ?row = "servo_row self env_action joint"
  let ?jt = "joint_of model joint"
  have ok: "\<forall>j \<in> set JOINT_NAMES. joint_ok self env_action j"
    using assms(1,3) by (simp add: init_joint_ok)
  have run: "get_spine_action self env_action = (Inr [''servo'' \<mapsto> ?servo], ?ws)"
    by (rule get_spine_action_all_ok [OF ok])
  have row: "?servo joint = Some ?row"
    using assms(4) by simp
  have dflt: "default_action self joint = Some (default_entry l ?jt)"
    by (rule init_tables(1) [OF assms(1,4)])
  from assms(2,4) have tau: "0 \<le> tau_max l (idx_v ?jt)"
    by (simp add: valid_limits_def)
  have vals: "default_entry l ?jt ''feedforward_torque'' = Some 0"
    "default_entry l ?jt ''kp_scale'' = Some 1"
    "default_entry l ?jt ''kd_scale'' = Some 1"
    "default_entry l ?jt ''maximum_torque'' = Some (tau_max l (idx_v ?jt))"
    by (simp_all add: default_entry_def)
  have keys: "''feedforward_torque'' \<in> set ACTION_KEYS" "''kp_scale'' \<in> set ACTION_KEYS"
    "''kd_scale'' \<in> set ACTION_KEYS" "''maximum_torque'' \<in> set ACTION_KEYS"
    by (simp_all add: ACTION_KEYS_def)
  note step = omitted_field_default [where env_action = env_action and entry = entry,
      OF assms(1,4) _ assms(5)]
  have ff: "entry ''feedforward_torque'' = None \<longrightarrow>
      ?row ''feedforward_torque'' = default_entry l ?jt ''feedforward_torque''"
    using tau step [OF keys(1) _ vals(1), of "- tau_max l (idx_v ?jt)" "tau_max l (idx_v ?jt)"]
    by (simp add: vals min_entry_def max_entry_def)
  have kp: "entry ''kp_scale'' = None \<longrightarrow> ?row ''kp_scale'' = default_entry l ?jt ''kp_scale''"
    using step [OF keys(2) _ vals(2), of 0 1]
    by (simp add: vals min_entry_def max_entry_def)
  have kd: "entry ''kd_scale'' = None \<longrightarrow> ?row ''kd_scale'' = default_entry l ?jt ''kd_scale''"
    using step [OF keys(3) _ vals(3), of 0 1]
    by (simp add: vals min_entry_def max_entry_def)
  have mt: "entry ''maximum_torque'' = None \<longrightarrow>
      ?row ''maximum_torque'' = default_entry l ?jt ''maximum_torque''"
    using tau step [OF keys(4) _ vals(4), of 0 "tau_max l (idx_v ?jt)"]
    by (simp add: vals min_entry_def max_entry_def)
  have all: "\<forall>key \<in> {''feedforward_torque'', ''kp_scale'', ''kd_scale'', ''maximum_torque''}.
      entry key = None \<longrightarrow> ?row key = default_entry l ?jt key"
    using ff kp kd mt by blast
  from run row dflt vals all show ?thesis
    unfolding joint_of_def by blast
qed

theorem omitted_fields_take_defaults_witness:
  "\<exists>servo ws row.
     get_spine_action upkie_env scenario_action = (Inr [''servo'' \<mapsto> servo], ws) \<and>
     servo ''left_knee'' = Some row \<and>
     row ''feedforward_torque'' = Some 0 \<and> row ''kp_scale'' = Some 1 \<and>
     row ''kd_scale'' = Some 1 \<and> row ''maximum_torque'' = Some 16"
proof -
  have j: "''left_knee'' \<in> set JOINT_NAMES" by (simp add: JOINT_NAMES_def)
  have e: "scenario_action ''left_knee'' = Some [''position'' \<mapsto> 0, ''velocity'' \<mapsto> 0]"
    by (simp add: scenario_action_def)
  have t: "tau_max upkie_limits (idx_v (joints upkie_model (getJointId upkie_model ''left_knee''))) = 16"
    by (simp add: upkie_limits_def)
  from omitted_fields_take_defaults [OF upkie_init upkie_valid scenario_supplies j e]
  show ?thesis unfolding t by fastforce
qed








section \<open>Missing values\<close>

lemma first_missing_key_cases:
  "first_missing_key a j = ''position'' \<or> first_missing_key a j = ''velocity''"
  by (simp add: first_missing_key_def split: option.splits)

lemma first_missing_key_missing:
  "\<not> supplies_required a j \<Longrightarrow>
   (case a j of None \<Rightarrow> True | Some entry \<Rightarrow> entry (first_missing_key a j) = None)"
  by (auto simp: first_missing_key_def supplies_required_def split: option.splits)

lemma clamp_field_missing:
  assumes "UpkieServos_init m l = Inr self" and "j \<in> set JOINT_NAMES"
    and "\<not> supplies_required a j"
  shows "clamp_field self a j (first_missing_key a j) =
           Inl (ActionError (missing_key_message (first_missing_key a j) j))"
proof -
  note d = init_tables(1) [OF assms(1,2)]
  show ?thesis
  proof (cases "a j")
    case None
    then show ?thesis by (simp add: clamp_field_def resolve_action_def)
  next
    case (Some entry)
    with assms(3) have "entry ''position'' = None \<or> entry ''velocity'' = None"
      by (simp add: supplies_required_def)
    with Some d show ?thesis
      by (auto simp: clamp_field_def resolve_action_def first_missing_key_def default_entry_def)
  qed
qed

lemma field_ok_before_missing:
  assumes "UpkieServos_init m l = Inr self" and "j \<in> set JOINT_NAMES"
    and "k \<in> set (takeWhile (\<lambda>k. k \<noteq> first_missing_key a j) ACTION_KEYS)"
  shows "field_ok self a j k"
proof -
  from assms(3) have k: "k = ''position''" and fm: "first_missing_key a j = ''velocity''"
    using first_missing_key_cases [of a j]
    by (auto simp: ACTION_KEYS_def split: if_splits)
  from fm obtain entry p where entry: "a j = Some entry" and p: "entry ''position'' = Some p"
    by (auto simp: first_missing_key_def split: option.splits if_splits)
  have r: "resolve_action self a j k = Inr p"
    using entry p k by (simp add: resolve_action_def)
  have "k \<in> set ACTION_KEYS" using k by (simp add: ACTION_KEYS_def)
  from init_lookups [OF assms(1,2) this] obtain lo hi
    where "table_lookup (min_action self) j k = Inr lo" "table_lookup (max_action self) j k = Inr hi"
    by blast
  from clamp_field_eq [OF r this] show ?thesis by (simp add: field_ok_def)
qed

lemma action_keys_split:
  "ACTION_KEYS = takeWhile (\<lambda>k. k \<noteq> first_missing_key a j) ACTION_KEYS @
     first_missing_key a j # tl (dropWhile (\<lambda>k. k \<noteq> first_missing_key a j) ACTION_KEYS)"
  using first_missing_key_cases [of a j] by (auto simp: ACTION_KEYS_def)

lemma key_loop_missing:
  assumes "UpkieServos_init m l = Inr self" and "j \<in> set JOINT_NAMES"
    and "\<not> supplies_required a j"
  shows "key_loop self a j ACTION_KEYS sa lg =
     (Inl (ActionError (missing_key_message (first_missing_key a j) j)),
      lg @ concat (map (field_warnings self a j)
                    (takeWhile (\<lambda>k. k \<noteq> first_missing_key a j) ACTION_KEYS)))"
proof -
  have ok: "\<forall>k \<in> set (takeWhile (\<lambda>k. k \<noteq> first_missing_key a j) ACTION_KEYS). field_ok self a j k"
    using field_ok_before_missing [OF assms(1,2)] by blast
  from key_loop_first_error [OF ok clamp_field_missing [OF assms],
      of "tl (dropWhile (\<lambda>k. k \<noteq> first_missing_key a j) ACTION_KEYS)" sa lg]
  show ?thesis
    using action_keys_split [of a j] by simp
qed

lemma get_spine_action_first_missing:
  assumes init: "UpkieServos_init m l = Inr self"
    and decomp: "JOINT_NAMES = js1 @ j # js2"
    and before: "\<forall>j' \<in> set js1. supplies_required a j'"
    and missing: "\<not> supplies_required a j"
  shows "get_spine_action self a =
     (Inl (ActionError (missing_key_message (first_missing_key a j) j)),
      concat (map (joint_warnings self a) js1) @
      concat (map (field_warnings self a j)
                (takeWhile (\<lambda>k. k \<noteq> first_missing_key a j) ACTION_KEYS)))"
proof -
  have j: "j \<in> set JOINT_NAMES" and sub: "set js1 \<subseteq> set JOINT_NAMES"
    by (auto simp: decomp)
  have ok: "\<forall>j' \<in> set js1. joint_ok self a j'"
    using before sub init_joint_ok [OF init] by blast
  have kl: "key_loop self a j ACTION_KEYS Map.empty ([] @ concat (map (joint_warnings self a) js1)) =
     (Inl (ActionError (missing_key_message (first_missing_key a j) j)),
      ([] @ concat (map (joint_warnings self a) js1)) @
      concat (map (field_warnings self a j)
                (takeWhile (\<lambda>k. k \<noteq> first_missing_key a j) ACTION_KEYS)))"
    by (rule key_loop_missing [OF init j missing])
  have "joint_loop self a (js1 @ j # js2) Map.empty [] =
     (Inl (ActionError (missing_key_message (first_missing_key a j) j)),
      ([] @ concat (map (joint_warnings self a) js1)) @
      concat (map (field_warnings self a j)
                (takeWhile (\<lambda>k. k \<noteq> first_missing_key a j) ACTION_KEYS)))"
    by (rule joint_loop_first_error [OF ok kl])
  then show ?thesis
    by (simp add: get_spine_action_def decomp)
qed

lemma first_failing_split:
  assumes "x \<in> set xs" and "\<not> P x"
  shows "\<exists>xs1 y xs2. xs = xs1 @ y # xs2 \<and> (\<forall>z \<in> set xs1. P z) \<and> \<not> P y"
proof -
  from assms have ne: "dropWhile P xs \<noteq> []"
    by (auto simp: dropWhile_eq_Nil_conv)
  then have d: "dropWhile P xs = hd (dropWhile P xs) # tl (dropWhile P xs)" by simp
  have "xs = takeWhile P xs @ hd (dropWhile P xs) # tl (dropWhile P xs)"
    using d takeWhile_dropWhile_id [of P xs] by simp
  moreover have "\<forall>z \<in> set (takeWhile P xs). P z"
    by (auto dest: set_takeWhileD)
  moreover have "\<not> P (hd (dropWhile P xs))"
    using ne by (rule hd_dropWhile)
  ultimately show ?thesis by blast
qed

lemma takeWhile_until:
  "x \<notin> set xs1 \<Longrightarrow> takeWhile (\<lambda>y. y \<noteq> x) (xs1 @ x # xs2) = xs1"
  by (induction xs1) auto

lemma split_at_member:
  "x \<in> set xs \<Longrightarrow>
   xs = takeWhile (\<lambda>y. y \<noteq> x) xs @ x # tl (dropWhile (\<lambda>y. y \<noteq> x) xs)"
  by (induction xs) auto

lemma first_missing_joint_raises:
  assumes init: "UpkieServos_init m l = Inr self"
    and j: "joint \<in> set JOINT_NAMES"
    and missing: "\<not> supplies_required a joint"
  shows "\<exists>joint'.
     joint' \<in> set JOINT_NAMES \<and>
     (\<forall>j \<in> set (takeWhile (\<lambda>j. j \<noteq> joint') JOINT_NAMES). supplies_required a j) \<and>
     \<not> supplies_required a joint' \<and>
     get_spine_action self a =
       (Inl (ActionError (missing_key_message (first_missing_key a joint') joint')),
        concat (map (joint_warnings self a) (takeWhile (\<lambda>j. j \<noteq> joint') JOINT_NAMES)) @
        concat (map (field_warnings self a joint')
                  (takeWhile (\<lambda>k. k \<noteq> first_missing_key a joint') ACTION_KEYS))) \<and>
     ((\<forall>j \<in> set (takeWhile (\<lambda>j. j \<noteq> joint) JOINT_NAMES). supplies_required a j) \<longrightarrow>
        joint' = joint)"
proof (cases "\<forall>j \<in> set (takeWhile (\<lambda>j. j \<noteq> joint) JOINT_NAMES). supplies_required a j")
  case True
  note run = get_spine_action_first_missing [OF init split_at_member [OF j] True missing]
  show ?thesis
  proof (rule exI [of _ joint], intro conjI)
    show "joint \<in> set JOINT_NAMES" by (rule j)
    show "\<forall>j \<in> set (takeWhile (\<lambda>j. j \<noteq> joint) JOINT_NAMES). supplies_required a j"
      by (rule True)
    show "\<not> supplies_required a joint" by (rule missing)
    show "get_spine_action self a =
       (Inl (ActionError (missing_key_message (first_missing_key a joint) joint)),
        concat (map (joint_warnings self a) (takeWhile (\<lambda>j. j \<noteq> joint) JOINT_NAMES)) @
        concat (map (field_warnings self a joint)
                  (takeWhile (\<lambda>k. k \<noteq> first_missing_key a joint) ACTION_KEYS)))"
      by (rule run)
    show "(\<forall>j \<in> set (takeWhile (\<lambda>j. j \<noteq> joint) JOINT_NAMES). supplies_required a j) \<longrightarrow>
        joint = joint"
      by simp
  qed
next
  case False
  from first_failing_split [where P = "supplies_required a", OF j missing] obtain js1 j' js2
    where decomp: "JOINT_NAMES = js1 @ j' # js2"
      and before: "\<forall>z \<in> set js1. supplies_required a z"
      and miss': "\<not> supplies_required a j'"
    by blast
  from before miss' have "j' \<notin> set js1" by blast
  from takeWhile_until [OF this, of js2] decomp
  have tw: "takeWhile (\<lambda>j. j \<noteq> j') JOINT_NAMES = js1" by simp
  have j': "j' \<in> set JOINT_NAMES" by (simp add: decomp)
  note run = get_spine_action_first_missing [OF init decomp before miss']
  show ?thesis
  proof (rule exI [of _ j'], intro conjI)
    show "j' \<in> set JOINT_NAMES" by (rule j')
    show "\<forall>j \<in> set (takeWhile (\<lambda>j. j \<noteq> j') JOINT_NAMES). supplies_required a j"
      unfolding tw by (rule before)
    show "\<not> supplies_required a j'" by (rule miss')
    show "get_spine_action self a =
       (Inl (ActionError (missing_key_message (first_missing_key a j') j')),
        concat (map (joint_warnings self a) (takeWhile (\<lambda>j. j \<noteq> j') JOINT_NAMES)) @
        concat (map (field_warnings self a j')
                  (takeWhile (\<lambda>k. k \<noteq> first_missing_key a j') ACTION_KEYS)))"
      unfolding tw by (rule run)
    show "(\<forall>j \<in> set (takeWhile (\<lambda>j. j \<noteq> joint) JOINT_NAMES). supplies_required a j) \<longrightarrow>
        j' = joint"
      using False by blast
  qed
qed

lemma first_missing_key_explicit:
  "first_missing_key a j =
     (case a j of
        None \<Rightarrow> ''position''
      | Some e \<Rightarrow> if e ''position'' = None then ''position'' else ''velocity'')"
  by (simp add: first_missing_key_def)

text \<open>
  C2, amended: when the entry of a joint omits its position or its velocity, the call
  raises an \<open>ActionError\<close> and returns no batch. The message names the first joint, in
  the order of \<open>JOINT_NAMES\<close>, that lacks a required value (every joint before it
  supplies a position and a velocity, and it does not), and the first key it lacks
  (\<open>position\<close> when it has no entry or no position, \<open>velocity\<close> otherwise); this is the
  joint at hand, with its first omitted field, when every joint before it supplies both.
  The warnings logged are those of the fields handled before the missing one.
\<close>

theorem missing_required_field_raises:
  assumes "UpkieServos_init model l = Inr self"
    and "joint \<in> set JOINT_NAMES"
    and "env_action joint = Some entry"
    and "entry ''position'' = None \<or> entry ''velocity'' = None"
  shows "\<exists>joint' key.
     joint' \<in> set JOINT_NAMES \<and>
     (\<forall>j \<in> set (takeWhile (\<lambda>j. j \<noteq> joint') JOINT_NAMES). supplies_required env_action j) \<and>
     \<not> supplies_required env_action joint' \<and>
     key = (case env_action joint' of
              None \<Rightarrow> ''position''
            | Some e \<Rightarrow> if e ''position'' = None then ''position'' else ''velocity'') \<and>
     (key = ''position'' \<or> key = ''velocity'') \<and>
     (case env_action joint' of None \<Rightarrow> True | Some e \<Rightarrow> e key = None) \<and>
     get_spine_action self env_action =
       (Inl (ActionError (missing_key_message key joint')),
        concat (map (joint_warnings self env_action)
                  (takeWhile (\<lambda>j. j \<noteq> joint') JOINT_NAMES)) @
        concat (map (field_warnings self env_action joint')
                  (takeWhile (\<lambda>k. k \<noteq> key) ACTION_KEYS))) \<and>
     ((\<forall>j \<in> set (takeWhile (\<lambda>j. j \<noteq> joint) JOINT_NAMES). supplies_required env_action j) \<longrightarrow>
        joint' = joint \<and>
        key = (if entry ''position'' = None then ''position'' else ''velocity''))"
proof -
  from assms(3,4) have missing: "\<not> supplies_required env_action joint"
    by (auto simp: supplies_required_def)
  from first_missing_joint_raises [OF assms(1,2) missing] obtain joint'
    where j': "joint' \<in> set JOINT_NAMES"
      and before: "\<forall>j \<in> set (takeWhile (\<lambda>j. j \<noteq> joint') JOINT_NAMES).
          supplies_required env_action j"
      and miss': "\<not> supplies_required env_action joint'"
      and run: "get_spine_action self env_action =
       (Inl (ActionError (missing_key_message (first_missing_key env_action joint') joint')),
        concat (map (joint_warnings self env_action)
                  (takeWhile (\<lambda>j. j \<noteq> joint') JOINT_NAMES)) @
        concat (map (field_warnings self env_action joint')
                  (takeWhile (\<lambda>k. k \<noteq> first_missing_key env_action joint') ACTION_KEYS)))"
      and same: "(\<forall>j \<in> set (takeWhile (\<lambda>j. j \<noteq> joint) JOINT_NAMES).
          supplies_required env_action j) \<longrightarrow> joint' = joint"
    by blast
  let ?key = "first_missing_key env_action joint'"
  have at_hand: "(\<forall>j \<in> set (takeWhile (\<lambda>j. j \<noteq> joint) JOINT_NAMES).
      supplies_required env_action j) \<longrightarrow>
      joint' = joint \<and> ?key = (if entry ''position'' = None then ''position'' else ''velocity'')"
    using same assms(3) by (auto simp: first_missing_key_def)
  show ?thesis
  proof (rule exI [of _ joint'], rule exI [of _ ?key], intro conjI)
    show "joint' \<in> set JOINT_NAMES" by (rule j')
    show "\<forall>j \<in> set (takeWhile (\<lambda>j. j \<noteq> joint') JOINT_NAMES). supplies_required env_action j"
      by (rule before)
    show "\<not> supplies_required env_action joint'" by (rule miss')
    show "?key = (case env_action joint' of
              None \<Rightarrow> ''position''
            | Some e \<Rightarrow> if e ''position'' = None then ''position'' else ''velocity'')"
      by (rule first_missing_key_explicit)
    show "?key = ''position'' \<or> ?key = ''velocity''" by (rule first_missing_key_cases)
    show "case env_action joint' of None \<Rightarrow> True | Some e \<Rightarrow> e ?key = None"
      by (rule first_missing_key_missing [OF miss'])
    show "get_spine_action self env_action =
       (Inl (ActionError (missing_key_message ?key joint')),
        concat (map (joint_warnings self env_action)
                  (takeWhile (\<lambda>j. j \<noteq> joint') JOINT_NAMES)) @
        concat (map (field_warnings self env_action joint')
                  (takeWhile (\<lambda>k. k \<noteq> ?key) ACTION_KEYS)))"
      by (rule run)
    show "(\<forall>j \<in> set (takeWhile (\<lambda>j. j \<noteq> joint) JOINT_NAMES).
      supplies_required env_action j) \<longrightarrow>
      joint' = joint \<and> ?key = (if entry ''position'' = None then ''position'' else ''velocity'')"
      by (rule at_hand)
  qed
qed

text \<open>
  C8, amended: when the action has no entry for a joint, the call raises an
  \<open>ActionError\<close> and returns no batch; no default is used for that joint. The message
  names the first joint, in the order of \<open>JOINT_NAMES\<close>, that lacks a required value
  (every joint before it supplies a position and a velocity, and it does not), and the
  first key it lacks; it names \<open>position\<close> and the joint at hand when every joint before
  it supplies a position and a velocity.
\<close>

theorem absent_joint_raises:
  assumes "UpkieServos_init model l = Inr self"
    and "joint \<in> set JOINT_NAMES"
    and "env_action joint = None"
  shows "\<exists>joint' key.
     joint' \<in> set JOINT_NAMES \<and>
     (\<forall>j \<in> set (takeWhile (\<lambda>j. j \<noteq> joint') JOINT_NAMES). supplies_required env_action j) \<and>
     \<not> supplies_required env_action joint' \<and>
     key = (case env_action joint' of
              None \<Rightarrow> ''position''
            | Some e \<Rightarrow> if e ''position'' = None then ''position'' else ''velocity'') \<and>
     (key = ''position'' \<or> key = ''velocity'') \<and>
     (case env_action joint' of None \<Rightarrow> True | Some e \<Rightarrow> e key = None) \<and>
     get_spine_action self env_action =
       (Inl (ActionError (missing_key_message key joint')),
        concat (map (joint_warnings self env_action)
                  (takeWhile (\<lambda>j. j \<noteq> joint') JOINT_NAMES)) @
        concat (map (field_warnings self env_action joint')
                  (takeWhile (\<lambda>k. k \<noteq> key) ACTION_KEYS))) \<and>
     ((\<forall>j \<in> set (takeWhile (\<lambda>j. j \<noteq> joint) JOINT_NAMES). supplies_required env_action j) \<longrightarrow>
        joint' = joint \<and> key = ''position'')"
proof -
  from assms(3) have missing: "\<not> supplies_required env_action joint"
    by (simp add: supplies_required_def)
  from first_missing_joint_raises [OF assms(1,2) missing] obtain joint'
    where j': "joint' \<in> set JOINT_NAMES"
      and before: "\<forall>j \<in> set (takeWhile (\<lambda>j. j \<noteq> joint') JOINT_NAMES).
          supplies_required env_action j"
      and miss': "\<not> supplies_required env_action joint'"
      and run: "get_spine_action self env_action =
       (Inl (ActionError (missing_key_message (first_missing_key env_action joint') joint')),
        concat (map (joint_warnings self env_action)
                  (takeWhile (\<lambda>j. j \<noteq> joint') JOINT_NAMES)) @
        concat (map (field_warnings self env_action joint')
                  (takeWhile (\<lambda>k. k \<noteq> first_missing_key env_action joint') ACTION_KEYS)))"
      and same: "(\<forall>j \<in> set (takeWhile (\<lambda>j. j \<noteq> joint) JOINT_NAMES).
          supplies_required env_action j) \<longrightarrow> joint' = joint"
    by blast
  let ?key = "first_missing_key env_action joint'"
  have at_hand: "(\<forall>j \<in> set (takeWhile (\<lambda>j. j \<noteq> joint) JOINT_NAMES).
      supplies_required env_action j) \<longrightarrow> joint' = joint \<and> ?key = ''position''"
    using same assms(3) by (auto simp: first_missing_key_def)
  show ?thesis
  proof (rule exI [of _ joint'], rule exI [of _ ?key], intro conjI)
    show "joint' \<in> set JOINT_NAMES" by (rule j')
    show "\<forall>j \<in> set (takeWhile (\<lambda>j. j \<noteq> joint') JOINT_NAMES). supplies_required env_action j"
      by (rule before)
    show "\<not> supplies_required env_action joint'" by (rule miss')
    show "?key = (case env_action joint' of
              None \<Rightarrow> ''position''
            | Some e \<Rightarrow> if e ''position'' = None then ''position'' else ''velocity'')"
      by (rule first_missing_key_explicit)
    show "?key = ''position'' \<or> ?key = ''velocity''" by (rule first_missing_key_cases)
    show "case env_action joint' of None \<Rightarrow> True | Some e \<Rightarrow> e ?key = None"
      by (rule first_missing_key_missing [OF miss'])
    show "get_spine_action self env_action =
       (Inl (ActionError (missing_key_message ?key joint')),
        concat (map (joint_warnings self env_action)
                  (takeWhile (\<lambda>j. j \<noteq> joint') JOINT_NAMES)) @
        concat (map (field_warnings self env_action joint')
                  (takeWhile (\<lambda>k. k \<noteq> ?key) ACTION_KEYS)))"
      by (rule run)
    show "(\<forall>j \<in> set (takeWhile (\<lambda>j. j \<noteq> joint) JOINT_NAMES).
      supplies_required env_action j) \<longrightarrow> joint' = joint \<and> ?key = ''position''"
      by (rule at_hand)
  qed
qed


lemma joint_names_members:
  "''left_hip'' \<in> set JOINT_NAMES" "''left_knee'' \<in> set JOINT_NAMES"
  "''left_wheel'' \<in> set JOINT_NAMES" "''right_hip'' \<in> set JOINT_NAMES"
  "''right_knee'' \<in> set JOINT_NAMES" "''right_wheel'' \<in> set JOINT_NAMES"
  by (simp_all add: JOINT_NAMES_def)

lemma joint_names_from_left_hip:
  "JOINT_NAMES = [] @ ''left_hip'' #
     [''left_knee'', ''left_wheel'', ''right_hip'', ''right_knee'', ''right_wheel'']"
  by (simp add: JOINT_NAMES_def)

lemma keys_before_velocity: "takeWhile (\<lambda>k. k \<noteq> ''velocity'') ACTION_KEYS = [''position'']"
  by (simp add: ACTION_KEYS_def)

lemma left_hip_first:
  assumes "\<forall>j \<in> set (takeWhile (\<lambda>j. j \<noteq> joint') JOINT_NAMES). supplies_required a j"
    and "\<not> supplies_required a ''left_hip''"
  shows "joint' = ''left_hip''"
proof (rule ccontr)
  assume "joint' \<noteq> ''left_hip''"
  then have "''left_hip'' \<in> set (takeWhile (\<lambda>j. j \<noteq> joint') JOINT_NAMES)"
    by (simp add: JOINT_NAMES_def)
  with assms show False by blast
qed

theorem missing_required_field_raises_witness:
  "(\<exists>ws. get_spine_action upkie_env no_velocity_action =
      (Inl (ActionError (missing_key_message ''velocity'' ''right_wheel'')), ws)) \<and>
   (\<exists>ws. get_spine_action upkie_env two_missing_action =
      (Inl (ActionError (missing_key_message ''velocity'' ''left_hip'')), ws))"
proof -
  have omitted: "[''position'' \<mapsto> (0::real)] ''position'' = None \<or>
      [''position'' \<mapsto> (0::real)] ''velocity'' = None"
    by simp
  have e1: "no_velocity_action ''right_wheel'' = Some [''position'' \<mapsto> 0]"
    by (simp add: no_velocity_action_def)
  have before: "\<forall>j \<in> set (takeWhile (\<lambda>j. j \<noteq> ''right_wheel'') JOINT_NAMES).
      supplies_required no_velocity_action j"
    by (simp add: JOINT_NAMES_def supplies_required_def no_velocity_action_def)
  from missing_required_field_raises [where env_action = no_velocity_action,
      OF upkie_init joint_names_members(6) e1 omitted] before
  have first: "\<exists>ws. get_spine_action upkie_env no_velocity_action =
      (Inl (ActionError (missing_key_message ''velocity'' ''right_wheel'')), ws)"
    by auto
  have e2: "two_missing_action ''right_wheel'' = Some [''position'' \<mapsto> 0]"
    by (simp add: two_missing_action_def)
  have hip: "\<not> supplies_required two_missing_action ''left_hip''"
    by (simp add: supplies_required_def two_missing_action_def)
  have key: "(case two_missing_action ''left_hip'' of
              None \<Rightarrow> ''position''
            | Some e \<Rightarrow> if e ''position'' = None then ''position'' else ''velocity'') = ''velocity''"
    by (simp add: two_missing_action_def)
  from missing_required_field_raises [where env_action = two_missing_action,
      OF upkie_init joint_names_members(6) e2 omitted]
  obtain joint' key ws
    where b: "\<forall>j \<in> set (takeWhile (\<lambda>j. j \<noteq> joint') JOINT_NAMES).
        supplies_required two_missing_action j"
      and k: "key = (case two_missing_action joint' of
              None \<Rightarrow> ''position''
            | Some e \<Rightarrow> if e ''position'' = None then ''position'' else ''velocity'')"
      and run: "get_spine_action upkie_env two_missing_action =
        (Inl (ActionError (missing_key_message key joint')), ws)"
    by blast
  from left_hip_first [OF b hip] k key run
  have second: "\<exists>ws. get_spine_action upkie_env two_missing_action =
      (Inl (ActionError (missing_key_message ''velocity'' ''left_hip'')), ws)"
    by simp
  from first second show ?thesis by (rule conjI)
qed

theorem absent_joint_raises_witness:
  "(\<exists>ws. get_spine_action upkie_env no_right_knee_action =
      (Inl (ActionError (missing_key_message ''position'' ''right_knee'')), ws)) \<and>
   (\<exists>ws. get_spine_action upkie_env absent_joint_action =
      (Inl (ActionError (missing_key_message ''velocity'' ''left_hip'')), ws))"
proof -
  have e1: "no_right_knee_action ''right_knee'' = None"
    by (simp add: no_right_knee_action_def)
  have before: "\<forall>j \<in> set (takeWhile (\<lambda>j. j \<noteq> ''right_knee'') JOINT_NAMES).
      supplies_required no_right_knee_action j"
    by (simp add: JOINT_NAMES_def supplies_required_def no_right_knee_action_def)
  from absent_joint_raises [where env_action = no_right_knee_action,
      OF upkie_init joint_names_members(5) e1] before
  have first: "\<exists>ws. get_spine_action upkie_env no_right_knee_action =
      (Inl (ActionError (missing_key_message ''position'' ''right_knee'')), ws)"
    by auto
  have e2: "absent_joint_action ''right_wheel'' = None"
    by (simp add: absent_joint_action_def)
  have hip: "\<not> supplies_required absent_joint_action ''left_hip''"
    by (simp add: supplies_required_def absent_joint_action_def)
  have key: "(case absent_joint_action ''left_hip'' of
              None \<Rightarrow> ''position''
            | Some e \<Rightarrow> if e ''position'' = None then ''position'' else ''velocity'') = ''velocity''"
    by (simp add: absent_joint_action_def)
  from absent_joint_raises [where env_action = absent_joint_action,
      OF upkie_init joint_names_members(6) e2]
  obtain joint' key ws
    where b: "\<forall>j \<in> set (takeWhile (\<lambda>j. j \<noteq> joint') JOINT_NAMES).
        supplies_required absent_joint_action j"
      and k: "key = (case absent_joint_action joint' of
              None \<Rightarrow> ''position''
            | Some e \<Rightarrow> if e ''position'' = None then ''position'' else ''velocity'')"
      and run: "get_spine_action upkie_env absent_joint_action =
        (Inl (ActionError (missing_key_message key joint')), ws)"
    by blast
  from left_hip_first [OF b hip] k key run
  have second: "\<exists>ws. get_spine_action upkie_env absent_joint_action =
      (Inl (ActionError (missing_key_message ''velocity'' ''left_hip'')), ws)"
    by simp
  from first second show ?thesis by (rule conjI)
qed


lemma upkie_left_hip_bounds:
  "table_lookup (min_action upkie_env) ''left_hip'' ''position'' = Inr (- 1)"
  "table_lookup (max_action upkie_env) ''left_hip'' ''position'' = Inr 1"
  using init_tables(2,3) [OF upkie_init joint_names_members(1)]
  by (simp_all add: table_lookup_def min_entry_def max_entry_def joint_of_def upkie_model_def
      upkie_limits_def)

lemma messages_differ:
  "missing_key_message ''velocity'' ''left_hip'' \<noteq> missing_key_message ''velocity'' ''right_wheel''"
  "missing_key_message ''velocity'' ''left_hip'' \<noteq> missing_key_message ''position'' ''right_wheel''"
  by (simp_all add: missing_key_message_def)

text \<open>
  C2 as stated fails: the right wheel has an entry without velocity, but the left hip,
  which comes first, lacks its velocity too, so the message names the left hip; and the
  warning for the position of the left hip has been logged before the exception.
\<close>

theorem missing_field_other_joint_counterexample:
  "two_missing_action ''right_wheel'' = Some [''position'' \<mapsto> 0] \<and>
   get_spine_action upkie_env two_missing_action =
     (Inl (ActionError (missing_key_message ''velocity'' ''left_hip'')),
      [\<lparr>label = ''left_hip: position'', original = 5, clamped = 1\<rparr>]) \<and>
   missing_key_message ''velocity'' ''left_hip'' \<noteq>
     missing_key_message ''velocity'' ''right_wheel''"
proof -
  have e: "two_missing_action ''right_wheel'' = Some [''position'' \<mapsto> 0]"
    by (simp add: two_missing_action_def)
  have missing: "\<not> supplies_required two_missing_action ''left_hip''"
    by (simp add: supplies_required_def two_missing_action_def)
  have fm: "first_missing_key two_missing_action ''left_hip'' = ''velocity''"
    by (simp add: first_missing_key_def two_missing_action_def)
  have r: "resolve_action upkie_env two_missing_action ''left_hip'' ''position'' = Inr 5"
    by (simp add: resolve_action_def two_missing_action_def)
  have k: "''position'' \<in> set ACTION_KEYS" by (simp add: ACTION_KEYS_def)
  have w: "field_warnings upkie_env two_missing_action ''left_hip'' ''position'' =
      [\<lparr>label = ''left_hip: position'', original = 5, clamped = 1\<rparr>]"
    using servo_row_value(2) [OF k r upkie_left_hip_bounds]
    by (simp add: clamp_and_warn_def clamp_label_def)
  have run: "get_spine_action upkie_env two_missing_action =
     (Inl (ActionError (missing_key_message ''velocity'' ''left_hip'')),
      [\<lparr>label = ''left_hip: position'', original = 5, clamped = 1\<rparr>])"
    using get_spine_action_first_missing [OF upkie_init joint_names_from_left_hip _ missing]
    by (simp add: fm keys_before_velocity w)
  from e run messages_differ(1) show ?thesis by blast
qed

text \<open>
  C8 as stated fails: the right wheel has no entry, but the left hip, which comes first,
  omits its velocity, so the message names \<open>velocity\<close> and the left hip.
\<close>

theorem absent_joint_other_message_counterexample:
  "absent_joint_action ''right_wheel'' = None \<and>
   get_spine_action upkie_env absent_joint_action =
     (Inl (ActionError (missing_key_message ''velocity'' ''left_hip'')), []) \<and>
   missing_key_message ''velocity'' ''left_hip'' \<noteq>
     missing_key_message ''position'' ''right_wheel''"
proof -
  have e: "absent_joint_action ''right_wheel'' = None"
    by (simp add: absent_joint_action_def)
  have missing: "\<not> supplies_required absent_joint_action ''left_hip''"
    by (simp add: supplies_required_def absent_joint_action_def)
  have fm: "first_missing_key absent_joint_action ''left_hip'' = ''velocity''"
    by (simp add: first_missing_key_def absent_joint_action_def)
  have r: "resolve_action upkie_env absent_joint_action ''left_hip'' ''position'' = Inr 0"
    by (simp add: resolve_action_def absent_joint_action_def)
  have k: "''position'' \<in> set ACTION_KEYS" by (simp add: ACTION_KEYS_def)
  have w: "field_warnings upkie_env absent_joint_action ''left_hip'' ''position'' = []"
    using servo_row_value(2) [OF k r upkie_left_hip_bounds]
    by (simp add: clamp_and_warn_def)
  have run: "get_spine_action upkie_env absent_joint_action =
     (Inl (ActionError (missing_key_message ''velocity'' ''left_hip'')), [])"
    using get_spine_action_first_missing [OF upkie_init joint_names_from_left_hip _ missing]
    by (simp add: fm keys_before_velocity w)
  from e run messages_differ(2) show ?thesis by blast
qed

section \<open>The store is left unchanged\<close>

lemma set_row_item_frame:
  "set_row_item h r key v = Inr h' \<Longrightarrow>
   fresh h' = fresh h \<and> (\<forall>a. a \<noteq> r \<longrightarrow> cells h' a = cells h a)"
  by (auto simp: set_row_item_def split: option.splits cell.splits)

lemma set_table_item_frame:
  "set_table_item h t key r = Inr h' \<Longrightarrow>
   fresh h' = fresh h \<and> (\<forall>a. a \<noteq> t \<longrightarrow> cells h' a = cells h a)"
  by (auto simp: set_table_item_def split: option.splits cell.splits)

lemma h_key_loop_frame:
  "h_key_loop self ea joint keys sa h lg = (res, h', lg') \<Longrightarrow>
   fresh h' = fresh h \<and> (\<forall>a. a \<noteq> sa \<longrightarrow> cells h' a = cells h a)"
proof (induction keys arbitrary: h lg)
  case Nil
  then show ?case by simp
next
  case (Cons key keys)
  show ?case
  proof (cases "h_resolve_action h self ea joint key")
    case (Inl e)
    with Cons.prems show ?thesis by simp
  next
    case action: (Inr action)
    show ?thesis
    proof (cases "h_table_lookup h (min_ref self) joint key")
      case (Inl e)
      with Cons.prems action show ?thesis by simp
    next
      case lower: (Inr lower)
      show ?thesis
      proof (cases "h_table_lookup h (max_ref self) joint key")
        case (Inl e)
        with Cons.prems action lower show ?thesis by simp
      next
        case upper: (Inr upper)
        obtain v ws where cw: "clamp_and_warn action lower upper (clamp_label joint key) = (v, ws)"
          by (cases "clamp_and_warn action lower upper (clamp_label joint key)")
        show ?thesis
        proof (cases "set_row_item h sa key v")
          case (Inl e)
          with Cons.prems action lower upper cw show ?thesis by simp
        next
          case (Inr h1)
          with Cons.prems action lower upper cw
          have "h_key_loop self ea joint keys sa h1 (lg @ ws) = (res, h', lg')" by simp
          from Cons.IH [OF this] set_row_item_frame [OF Inr] show ?thesis by simp
        qed
      qed
    qed
  qed
qed

lemma h_joint_loop_frame:
  "spine_cells n sp sv h \<Longrightarrow> n \<le> fresh h \<Longrightarrow>
   h_joint_loop self ea js sp h lg = (res, h', lg') \<Longrightarrow>
   fresh h \<le> fresh h' \<and> (\<forall>a < n. cells h' a = cells h a)"
proof (induction js arbitrary: h lg)
  case Nil
  then show ?case by simp
next
  case (Cons j js)
  let ?sa = "fresh h"
  let ?h1 = "h\<lparr>cells := (cells h)(fresh h \<mapsto> Row Map.empty), fresh := Suc (fresh h)\<rparr>"
  obtain r2 h2 lg2 where kl: "h_key_loop self ea j ACTION_KEYS ?sa ?h1 lg = (r2, h2, lg2)"
    by (cases "h_key_loop self ea j ACTION_KEYS ?sa ?h1 lg") auto
  note f2 = h_key_loop_frame [OF kl]
  from Cons.prems(1) have sp: "cells h sp = Some (Table [''servo'' \<mapsto> sv])"
    and lt: "sp < fresh h" "sv < fresh h" "n \<le> sp" "n \<le> sv" "sp \<noteq> sv"
    by (simp_all add: spine_cells_def)
  have sp2: "cells h2 sp = Some (Table [''servo'' \<mapsto> sv])"
    using f2 sp lt by simp
  have below2: "\<forall>a < n. cells h2 a = cells h a"
    using f2 Cons.prems(2) by simp
  have fresh2: "fresh h2 = Suc (fresh h)" using f2 by simp
  show ?case
  proof (cases r2)
    case (Inl e)
    with Cons.prems(3) kl have "h' = h2" by (simp add: new_cell_def)
    with below2 fresh2 show ?thesis by simp
  next
    case (Inr u)
    show ?thesis
    proof (cases "set_table_item h2 sv j ?sa")
      case (Inl e)
      with Cons.prems(3) kl Inr sp2 have "h' = h2"
        by (simp add: new_cell_def get_table_def)
      with below2 fresh2 show ?thesis by simp
    next
      case h3: (Inr h3)
      note f3 = set_table_item_frame [OF h3]
      from Cons.prems(3) kl Inr sp2 h3
      have rest: "h_joint_loop self ea js sp h3 lg2 = (res, h', lg')"
        by (simp add: new_cell_def get_table_def)
      have inv3: "spine_cells n sp sv h3"
        using f3 fresh2 sp2 lt by (simp add: spine_cells_def)
      have n3: "n \<le> fresh h3" using f3 fresh2 Cons.prems(2) by simp
      from Cons.IH [OF inv3 n3 rest] f3 fresh2 below2 lt show ?thesis by simp
    qed
  qed
qed

lemma h_get_spine_action_frame:
  assumes "h_get_spine_action self ea h = (res, h', ws)"
  shows "fresh h \<le> fresh h' \<and> (\<forall>a < fresh h. cells h' a = cells h a)"
proof -
  let ?sv = "fresh h"
  let ?sp = "Suc (fresh h)"
  let ?h2 = "h\<lparr>cells := (cells h)(?sv \<mapsto> Table Map.empty, ?sp \<mapsto> Table [''servo'' \<mapsto> ?sv]),
               fresh := Suc (Suc (fresh h))\<rparr>"
  obtain r3 h3 lg3 where jl: "h_joint_loop self ea JOINT_NAMES ?sp ?h2 [] = (r3, h3, lg3)"
    by (cases "h_joint_loop self ea JOINT_NAMES ?sp ?h2 []") auto
  have inv: "spine_cells (fresh h) ?sp ?sv ?h2" by (simp add: spine_cells_def)
  from h_joint_loop_frame [OF inv _ jl]
  have "fresh ?h2 \<le> fresh h3 \<and> (\<forall>a < fresh h. cells h3 a = cells ?h2 a)" by simp
  moreover from assms jl have "h' = h3"
    by (cases r3) (simp_all add: h_get_spine_action_def new_cell_def)
  ultimately show ?thesis by simp
qed

lemma is_row_iff: "is_row h r \<longleftrightarrow> (\<exists>row. cells h r = Some (Row row))"
  by (cases "cells h r") (auto simp: is_row_def split: cell.splits)

lemma refs_below_iff:
  "refs_below n h d \<longleftrightarrow>
     (\<forall>j \<in> set JOINT_NAMES. \<forall>r. d j = Some r \<longrightarrow> r < n \<and> is_row h r)"
  unfolding refs_below_def
  by (rule ball_cong [OF refl]) (simp split: option.splits)

lemma table_below_iff:
  "table_below n h t \<longleftrightarrow>
     t < n \<and> (\<exists>d. cells h t = Some (Table d) \<and> refs_below n h d)"
  by (cases "cells h t") (auto simp: table_below_def split: cell.splits)

lemma table_below_cases:
  assumes "table_below n h t" and "j \<in> set JOINT_NAMES"
  obtains d where "cells h t = Some (Table d)" "d j = None"
  | d r row where "cells h t = Some (Table d)" "d j = Some r" "r < n" "cells h r = Some (Row row)"
proof -
  from assms(1) obtain d where d: "cells h t = Some (Table d)" and rb: "refs_below n h d"
    unfolding table_below_iff by blast
  show thesis
  proof (cases "d j")
    case None
    with d that(1) show thesis by blast
  next
    case (Some r)
    with rb assms(2) have "r < n" "is_row h r"
      unfolding refs_below_iff by blast+
    then obtain row where "cells h r = Some (Row row)"
      unfolding is_row_iff by blast
    with d Some \<open>r < n\<close> that(2) show thesis by blast
  qed
qed

lemma h_table_lookup_read:
  assumes "table_below n h t" and "j \<in> set JOINT_NAMES"
  shows "h_table_lookup h t j k = table_lookup (read_joints h t) j k"
  using assms(1,2)
  by (cases rule: table_below_cases)
     (simp_all add: assms(2) h_table_lookup_def table_lookup_def read_joints_def read_rows_def
        get_table_def get_row_def)

lemma h_resolve_action_read:
  assumes "table_below n h ea" and "table_below n h (default_ref self)" and "j \<in> set JOINT_NAMES"
  shows "h_resolve_action h self ea j k = resolve_action (self_of h self) (read_joints h ea) j k"
  using assms(1,3)
proof (cases rule: table_below_cases)
  case (1 d)
  then show ?thesis
    by (simp add: assms(3) h_resolve_action_def resolve_action_def read_joints_def read_rows_def
        get_table_def)
next
  case (2 d r row)
  note entry = this
  show ?thesis
  proof (cases "row k")
    case (Some v)
    with entry show ?thesis
      by (simp add: assms(3) h_resolve_action_def resolve_action_def read_joints_def read_rows_def
          get_table_def get_row_def)
  next
    case None
    from assms(2,3) show ?thesis
    proof (cases rule: table_below_cases)
      case (1 dd)
      with entry None show ?thesis
        by (simp add: assms(3) h_resolve_action_def resolve_action_def read_joints_def
            read_rows_def get_table_def get_row_def self_of_def)
    next
      case (2 dd r' drow)
      with entry None show ?thesis
        by (simp add: assms(3) h_resolve_action_def resolve_action_def read_joints_def
            read_rows_def get_table_def get_row_def self_of_def)
    qed
  qed
qed

lemma table_below_agree:
  assumes "table_below n h t" and "\<forall>a < n. cells h' a = cells h a"
  shows "table_below n h' t" and "read_joints h' t = read_joints h t"
proof -
  from assms(1) obtain d where t: "t < n" and d: "cells h t = Some (Table d)"
    and rb: "refs_below n h d"
    unfolding table_below_iff by blast
  from t assms(2) have ct: "cells h' t = cells h t" by simp
  have same: "cells h' r = cells h r" if "j \<in> set JOINT_NAMES" "d j = Some r" for j r
    using rb that assms(2) unfolding refs_below_iff by blast
  have "read_rows h' t j = read_rows h t j" if "j \<in> set JOINT_NAMES" for j
    using same [OF that] by (simp add: read_rows_def ct d split: option.splits)
  then show "read_joints h' t = read_joints h t"
    by (simp add: read_joints_def fun_eq_iff)
  have "refs_below n h' d"
    using rb same unfolding refs_below_iff is_row_iff by metis
  with t ct d show "table_below n h' t"
    unfolding table_below_iff by simp
qed

lemma table_below_mono:
  assumes "table_below n h t" and "n \<le> m"
  shows "table_below m h t"
proof -
  from assms(1) obtain d where t: "t < n" and d: "cells h t = Some (Table d)"
    and rb: "refs_below n h d"
    unfolding table_below_iff by blast
  from rb assms(2) have "refs_below m h d"
    unfolding refs_below_iff by fastforce
  with t d assms(2) show ?thesis
    unfolding table_below_iff by simp
qed

lemma set_row_item_row:
  "cells h r = Some (Row d) \<Longrightarrow>
   set_row_item h r key v = Inr (h\<lparr>cells := (cells h)(r \<mapsto> Row (d(key \<mapsto> v)))\<rparr>)"
  by (simp add: set_row_item_def)

lemma set_table_item_table:
  "cells h t = Some (Table d) \<Longrightarrow>
   set_table_item h t key r = Inr (h\<lparr>cells := (cells h)(t \<mapsto> Table (d(key \<mapsto> r)))\<rparr>)"
  by (simp add: set_table_item_def)

lemma h_key_loop_refines:
  assumes tabs: "table_below n h0 ea" "table_below n h0 (default_ref self)"
      "table_below n h0 (max_ref self)" "table_below n h0 (min_ref self)"
    and j: "j \<in> set JOINT_NAMES"
    and sa: "n \<le> sa"
  shows "(\<forall>a < n. cells h a = cells h0 a) \<Longrightarrow> cells h sa = Some (Row srow) \<Longrightarrow>
     h_key_loop self ea j ks sa h lg = (res, h', lg') \<Longrightarrow>
     lg' = snd (key_loop (self_of h0 self) (read_joints h0 ea) j ks srow lg) \<and>
     (case fst (key_loop (self_of h0 self) (read_joints h0 ea) j ks srow lg) of
        Inl e \<Rightarrow> res = Inl e
      | Inr srow' \<Rightarrow> res = Inr () \<and> cells h' sa = Some (Row srow'))"
proof (induction ks arbitrary: h lg srow)
  case Nil
  then show ?case by simp
next
  case (Cons k ks)
  note agree = Cons.prems(1)
  let ?self = "self_of h0 self" and ?a = "read_joints h0 ea"
  have r: "h_resolve_action h self ea j k = resolve_action ?self ?a j k"
    using h_resolve_action_read [OF table_below_agree(1) [OF tabs(1) agree]
        table_below_agree(1) [OF tabs(2) agree] j, of k]
      table_below_agree(2) [OF tabs(1) agree] table_below_agree(2) [OF tabs(2) agree]
      table_below_agree(2) [OF tabs(3) agree] table_below_agree(2) [OF tabs(4) agree]
    by (simp add: self_of_def)
  have lo: "h_table_lookup h (min_ref self) j k = table_lookup (min_action ?self) j k"
    using h_table_lookup_read [OF table_below_agree(1) [OF tabs(4) agree] j, of k]
      table_below_agree(2) [OF tabs(4) agree]
    by (simp add: self_of_def)
  have hi: "h_table_lookup h (max_ref self) j k = table_lookup (max_action ?self) j k"
    using h_table_lookup_read [OF table_below_agree(1) [OF tabs(3) agree] j, of k]
      table_below_agree(2) [OF tabs(3) agree]
    by (simp add: self_of_def)
  show ?case
  proof (cases "resolve_action ?self ?a j k")
    case (Inl e)
    with Cons.prems(3) r show ?thesis by simp
  next
    case action: (Inr action)
    show ?thesis
    proof (cases "table_lookup (min_action ?self) j k")
      case (Inl e)
      with Cons.prems(3) r lo action show ?thesis by simp
    next
      case lower: (Inr lower)
      show ?thesis
      proof (cases "table_lookup (max_action ?self) j k")
        case (Inl e)
        with Cons.prems(3) r lo hi action lower show ?thesis by simp
      next
        case upper: (Inr upper)
        obtain v ws where cw: "clamp_and_warn action lower upper (clamp_label j k) = (v, ws)"
          by (cases "clamp_and_warn action lower upper (clamp_label j k)")
        let ?h1 = "h\<lparr>cells := (cells h)(sa \<mapsto> Row (srow(k \<mapsto> v)))\<rparr>"
        note w = set_row_item_row [OF Cons.prems(2), of k v]
        from Cons.prems(3) r lo hi action lower upper cw w
        have rest: "h_key_loop self ea j ks sa ?h1 (lg @ ws) = (res, h', lg')" by simp
        have agree1: "\<forall>a < n. cells ?h1 a = cells h0 a" using agree sa by simp
        have row1: "cells ?h1 sa = Some (Row (srow(k \<mapsto> v)))" by simp
        have step: "key_loop ?self ?a j (k # ks) srow lg =
            key_loop ?self ?a j ks (srow(k \<mapsto> v)) (lg @ ws)"
          using action lower upper cw by simp
        from Cons.IH [OF agree1 row1 rest]
        show ?thesis unfolding step .
      qed
    qed
  qed
qed

lemma h_joint_loop_refines:
  assumes tabs: "table_below n h0 ea" "table_below n h0 (default_ref self)"
      "table_below n h0 (max_ref self)" "table_below n h0 (min_ref self)"
  shows "set js \<subseteq> set JOINT_NAMES \<Longrightarrow> spine_cells n sp sv h \<Longrightarrow> n \<le> fresh h \<Longrightarrow>
     (\<forall>a < n. cells h a = cells h0 a) \<Longrightarrow> cells h sv = Some (Table svd) \<Longrightarrow>
     (\<forall>j r. svd j = Some r \<longrightarrow> r < fresh h \<and> r \<noteq> sv \<and> r \<noteq> sp \<and> n \<le> r) \<Longrightarrow>
     read_rows h sv = servo \<Longrightarrow>
     h_joint_loop self ea js sp h lg = (res, h', lg') \<Longrightarrow>
     lg' = snd (joint_loop (self_of h0 self) (read_joints h0 ea) js servo lg) \<and>
     (case fst (joint_loop (self_of h0 self) (read_joints h0 ea) js servo lg) of
        Inl e \<Rightarrow> res = Inl e
      | Inr servo' \<Rightarrow>
          res = Inr () \<and> read_rows h' sv = servo' \<and>
          cells h' sp = Some (Table [''servo'' \<mapsto> sv]))"
proof (induction js arbitrary: h lg svd servo)
  case Nil
  then show ?case by (simp add: spine_cells_def)
next
  case (Cons j js)
  let ?self = "self_of h0 self" and ?a = "read_joints h0 ea"
  let ?sa = "fresh h"
  let ?h1 = "h\<lparr>cells := (cells h)(fresh h \<mapsto> Row Map.empty), fresh := Suc (fresh h)\<rparr>"
  from Cons.prems(1) have j: "j \<in> set JOINT_NAMES" and js: "set js \<subseteq> set JOINT_NAMES"
    by simp_all
  from Cons.prems(2) have sp: "cells h sp = Some (Table [''servo'' \<mapsto> sv])"
    and lt: "sp < fresh h" "sv < fresh h" "n \<le> sp" "n \<le> sv" "sp \<noteq> sv"
    by (simp_all add: spine_cells_def)
  note n = Cons.prems(3) and agree = Cons.prems(4) and sv = Cons.prems(5)
    and refs = Cons.prems(6) and servo = Cons.prems(7) and run = Cons.prems(8)
  obtain r2 h2 lg2 where kl: "h_key_loop self ea j ACTION_KEYS ?sa ?h1 lg = (r2, h2, lg2)"
    by (cases "h_key_loop self ea j ACTION_KEYS ?sa ?h1 lg") auto
  note f2 = h_key_loop_frame [OF kl]
  have agree1: "\<forall>a < n. cells ?h1 a = cells h0 a" using agree n by simp
  have row1: "cells ?h1 ?sa = Some (Row Map.empty)" by simp
  obtain pk plg where pure: "key_loop ?self ?a j ACTION_KEYS Map.empty lg = (pk, plg)"
    by (cases "key_loop ?self ?a j ACTION_KEYS Map.empty lg")
  from h_key_loop_refines [OF tabs j n agree1 row1 kl] pure
  have lg2: "lg2 = plg"
    and r2: "case pk of Inl e \<Rightarrow> r2 = Inl e
             | Inr srow' \<Rightarrow> r2 = Inr () \<and> cells h2 ?sa = Some (Row srow')"
    by simp_all
  have sp2: "cells h2 sp = Some (Table [''servo'' \<mapsto> sv])"
    using f2 sp lt by simp
  have sv2: "cells h2 sv = Some (Table svd)"
    using f2 sv lt by simp
  have fresh2: "fresh h2 = Suc (fresh h)" using f2 by simp
  show ?case
  proof (cases pk)
    case (Inl e)
    with r2 have "r2 = Inl e" by simp
    with run kl have "res = Inl e" "lg' = lg2" by (simp_all add: new_cell_def)
    with lg2 pure Inl show ?thesis by simp
  next
    case (Inr srow')
    with r2 have r2': "r2 = Inr ()" and row2: "cells h2 ?sa = Some (Row srow')" by simp_all
    let ?h3 = "h2\<lparr>cells := (cells h2)(sv \<mapsto> Table (svd(j \<mapsto> ?sa)))\<rparr>"
    note w = set_table_item_table [OF sv2, of j ?sa]
    from run kl r2' sp2 w
    have rest: "h_joint_loop self ea js sp ?h3 lg2 = (res, h', lg')"
      by (simp add: new_cell_def get_table_def)
    have inv3: "spine_cells n sp sv ?h3"
      using fresh2 sp2 lt by (simp add: spine_cells_def)
    have n3: "n \<le> fresh ?h3" using fresh2 n by simp
    have agree3: "\<forall>a < n. cells ?h3 a = cells h0 a"
      using f2 agree1 lt n by simp
    have sv3: "cells ?h3 sv = Some (Table (svd(j \<mapsto> ?sa)))" by simp
    have refs3: "\<forall>j' r. (svd(j \<mapsto> ?sa)) j' = Some r \<longrightarrow>
        r < fresh ?h3 \<and> r \<noteq> sv \<and> r \<noteq> sp \<and> n \<le> r"
      using refs lt n fresh2 by (auto simp: less_Suc_eq)
    have servo3: "read_rows ?h3 sv = servo(j \<mapsto> srow')"
    proof (rule ext)
      fix j'
      show "read_rows ?h3 sv j' = (servo(j \<mapsto> srow')) j'"
      proof (cases "j' = j")
        case True
        with row2 lt show ?thesis by (simp add: read_rows_def)
      next
        case False
        show ?thesis
        proof (cases "svd j'")
          case None
          with False servo sv show ?thesis
            by (auto simp: read_rows_def)
        next
          case (Some r)
          with refs have "r \<noteq> ?sa" "r \<noteq> sv" by auto
          with f2 have "cells ?h3 r = cells h r" by simp
          with False Some servo sv show ?thesis
            by (auto simp: read_rows_def)
        qed
      qed
    qed
    have step: "joint_loop ?self ?a (j # js) servo lg =
        joint_loop ?self ?a js (servo(j \<mapsto> srow')) plg"
      using pure Inr by simp
    from Cons.IH [OF js inv3 n3 agree3 sv3 refs3 servo3 rest]
    show ?thesis unfolding step lg2 .
  qed
qed

lemma h_get_spine_action_refines:
  assumes ok: "inputs_ok h self ea"
    and run: "h_get_spine_action self ea h = (res, h', ws)"
  shows "ws = snd (get_spine_action (self_of h self) (read_joints h ea)) \<and>
     (case fst (get_spine_action (self_of h self) (read_joints h ea)) of
        Inl e \<Rightarrow> res = Inl e
      | Inr batch \<Rightarrow> (\<exists>b. res = Inr b \<and> read_batch h' b = batch))"
proof -
  let ?self = "self_of h self" and ?a = "read_joints h ea"
  let ?sv = "fresh h"
  let ?sp = "Suc (fresh h)"
  let ?h2 = "h\<lparr>cells := (cells h)(?sv \<mapsto> Table Map.empty, ?sp \<mapsto> Table [''servo'' \<mapsto> ?sv]),
               fresh := Suc (Suc (fresh h))\<rparr>"
  from ok have tabs: "table_below (fresh h) h ea" "table_below (fresh h) h (default_ref self)"
    "table_below (fresh h) h (max_ref self)" "table_below (fresh h) h (min_ref self)"
    by (simp_all add: inputs_ok_def)
  obtain r3 h3 lg3 where jl: "h_joint_loop self ea JOINT_NAMES ?sp ?h2 [] = (r3, h3, lg3)"
    by (cases "h_joint_loop self ea JOINT_NAMES ?sp ?h2 []") auto
  obtain pj plg where pure: "joint_loop ?self ?a JOINT_NAMES Map.empty [] = (pj, plg)"
    by (cases "joint_loop ?self ?a JOINT_NAMES Map.empty []")
  have inv: "spine_cells (fresh h) ?sp ?sv ?h2" by (simp add: spine_cells_def)
  have agree: "\<forall>a < fresh h. cells ?h2 a = cells h a" by simp
  have sv: "cells ?h2 ?sv = Some (Table Map.empty)" by simp
  have refs: "\<forall>j r. (Map.empty :: nat dict) j = Some r \<longrightarrow>
      r < fresh ?h2 \<and> r \<noteq> ?sv \<and> r \<noteq> ?sp \<and> fresh h \<le> r"
    by simp
  have servo: "read_rows ?h2 ?sv = Map.empty"
    by (simp add: read_rows_def)
  from h_joint_loop_refines [OF tabs subset_refl inv _ agree sv refs servo jl] pure
  have lg3: "lg3 = plg"
    and r3: "case pj of Inl e \<Rightarrow> r3 = Inl e
             | Inr servo' \<Rightarrow> r3 = Inr () \<and> read_rows h3 ?sv = servo' \<and>
                 cells h3 ?sp = Some (Table [''servo'' \<mapsto> ?sv])"
    by simp_all
  show ?thesis
  proof (cases pj)
    case (Inl e)
    with r3 have "r3 = Inl e" by simp
    with run jl have "res = Inl e" "ws = lg3"
      by (simp_all add: h_get_spine_action_def new_cell_def)
    with lg3 pure Inl show ?thesis by (simp add: get_spine_action_def)
  next
    case (Inr servo')
    with r3 have "r3 = Inr ()" and rows: "read_rows h3 ?sv = servo'"
      and sp3: "cells h3 ?sp = Some (Table [''servo'' \<mapsto> ?sv])"
      by simp_all
    with run jl have res: "res = Inr ?sp" and h': "h' = h3" and ws: "ws = lg3"
      by (simp_all add: h_get_spine_action_def new_cell_def)
    have "read_batch h3 ?sp = [''servo'' \<mapsto> servo']"
      by (auto simp: read_batch_def sp3 rows fun_eq_iff)
    with res h' ws lg3 pure Inr show ?thesis by (simp add: get_spine_action_def)
  qed
qed

text \<open>
  C9: a call of \<open>get_spine_action\<close>, whether it returns a batch or raises, leaves every
  cell that existed before the call as it was; so the action and the three tables read
  after the call are those read before it, and a second call with the same action logs
  the same warnings and raises the same error or returns a batch with the same
  contents.
\<close>

theorem get_spine_action_leaves_inputs:
  assumes "inputs_ok h self env_action"
    and "h_get_spine_action self env_action h = (res, h1, ws)"
    and "h_get_spine_action self env_action h1 = (res', h2, ws')"
  shows "(\<forall>a < fresh h. cells h1 a = cells h a) \<and>
     read_joints h1 env_action = read_joints h env_action \<and>
     self_of h1 self = self_of h self \<and>
     ws' = ws \<and>
     (case res of
        Inl e \<Rightarrow> res' = Inl e
      | Inr b \<Rightarrow> (\<exists>b'. res' = Inr b' \<and> read_batch h2 b' = read_batch h1 b))"
proof -
  from assms(1) have tabs: "table_below (fresh h) h env_action"
    "table_below (fresh h) h (default_ref self)"
    "table_below (fresh h) h (max_ref self)" "table_below (fresh h) h (min_ref self)"
    by (simp_all add: inputs_ok_def)
  from h_get_spine_action_frame [OF assms(2)]
  have le: "fresh h \<le> fresh h1" and frame: "\<forall>a < fresh h. cells h1 a = cells h a"
    by simp_all
  note same = table_below_agree(2) [OF tabs(1) frame] table_below_agree(2) [OF tabs(2) frame]
    table_below_agree(2) [OF tabs(3) frame] table_below_agree(2) [OF tabs(4) frame]
  have self: "self_of h1 self = self_of h self"
    by (simp add: self_of_def same)
  have ok1: "inputs_ok h1 self env_action"
    unfolding inputs_ok_def
    using table_below_mono [OF table_below_agree(1) [OF tabs(1) frame] le]
      table_below_mono [OF table_below_agree(1) [OF tabs(2) frame] le]
      table_below_mono [OF table_below_agree(1) [OF tabs(3) frame] le]
      table_below_mono [OF table_below_agree(1) [OF tabs(4) frame] le]
    by simp
  note first = h_get_spine_action_refines [OF assms(1,2)]
  note second = h_get_spine_action_refines [OF ok1 assms(3), unfolded self same(1)]
  from first second have ws: "ws' = ws" by simp
  have batches: "case res of
        Inl e \<Rightarrow> res' = Inl e
      | Inr b \<Rightarrow> (\<exists>b'. res' = Inr b' \<and> read_batch h2 b' = read_batch h1 b)"
  proof (cases "fst (get_spine_action (self_of h self) (read_joints h env_action))")
    case (Inl e)
    with first second show ?thesis by simp
  next
    case (Inr batch)
    with first second show ?thesis by auto
  qed
  from frame same(1) self ws batches show ?thesis by simp
qed

lemma upkie_heap_ok: "inputs_ok upkie_heap upkie_refs 7"
  by (simp add: inputs_ok_def table_below_def refs_below_def is_row_def upkie_heap_def
      upkie_refs_def)

theorem get_spine_action_leaves_inputs_witness:
  "inputs_ok upkie_heap upkie_refs 7 \<and>
   cells (fst (snd (h_get_spine_action upkie_refs 7 upkie_heap))) 7 = cells upkie_heap 7 \<and>
   cells (fst (snd (h_get_spine_action upkie_refs 7 upkie_heap))) 6 = cells upkie_heap 6 \<and>
   cells (fst (snd (h_get_spine_action upkie_refs 7 upkie_heap))) 1 = cells upkie_heap 1 \<and>
   cells (fst (snd (h_get_spine_action upkie_refs 7 upkie_heap))) 0 = cells upkie_heap 0 \<and>
   snd (snd (h_get_spine_action upkie_refs 7
               (fst (snd (h_get_spine_action upkie_refs 7 upkie_heap))))) =
     snd (snd (h_get_spine_action upkie_refs 7 upkie_heap))"
proof -
  let ?first = "h_get_spine_action upkie_refs 7 upkie_heap"
  let ?second = "h_get_spine_action upkie_refs 7 (fst (snd ?first))"
  have one: "?first = (fst ?first, fst (snd ?first), snd (snd ?first))" by simp
  have two: "?second = (fst ?second, fst (snd ?second), snd (snd ?second))" by simp
  have f: "fresh upkie_heap = 8" by (simp add: upkie_heap_def)
  from get_spine_action_leaves_inputs [OF upkie_heap_ok one two]
  have frame: "\<forall>a < 8. cells (fst (snd ?first)) a = cells upkie_heap a"
    and same: "snd (snd ?second) = snd (snd ?first)"
    unfolding f by blast+
  from frame have "cells (fst (snd ?first)) 7 = cells upkie_heap 7"
    "cells (fst (snd ?first)) 6 = cells upkie_heap 6"
    "cells (fst (snd ?first)) 1 = cells upkie_heap 1"
    "cells (fst (snd ?first)) 0 = cells upkie_heap 0"
    by simp_all
  with same upkie_heap_ok show ?thesis by blast
qed

end
